theory Spec2Isabelle
  imports Main "HOL-Library.Char_ord" "HOL-Library.List_Lexorder" "HOL-Library.Multiset"
begin

section \<open>Strings\<close>

text \<open>
  A JavaScript string is modelled as a \<open>string\<close> (a list of \<open>char\<close>): every \<open>char\<close> stands
  for one code unit below 256. Comparison of characters and of strings is by code unit, which
  is the order of \<open>Array.prototype.sort\<close> without a comparator.
\<close>

definition isLineTerminator :: "char \<Rightarrow> bool" where
  "isLineTerminator ch \<longleftrightarrow> ch = CHR 0x0A \<or> ch = CHR 0x0D"

text \<open>The white space of \<open>String.prototype.trim\<close> and of the class escape \<open>\s\<close>.\<close>

definition isWhiteSpace :: "char \<Rightarrow> bool" where
  "isWhiteSpace ch \<longleftrightarrow>
     ch = CHR 0x09 \<or> ch = CHR 0x0A \<or> ch = CHR 0x0B \<or> ch = CHR 0x0C \<or> ch = CHR 0x0D \<or>
     ch = CHR 0x20 \<or> ch = CHR 0xA0"

definition isDigit :: "char \<Rightarrow> bool" where
  "isDigit ch \<longleftrightarrow> CHR ''0'' \<le> ch \<and> ch \<le> CHR ''9''"

definition isAlnum :: "char \<Rightarrow> bool" where
  "isAlnum ch \<longleftrightarrow>
     (CHR ''a'' \<le> ch \<and> ch \<le> CHR ''z'') \<or> (CHR ''A'' \<le> ch \<and> ch \<le> CHR ''Z'') \<or> isDigit ch"

text \<open>The class escape \<open>\w\<close>.\<close>

definition isWordChar :: "char \<Rightarrow> bool" where
  "isWordChar ch \<longleftrightarrow> isAlnum ch \<or> ch = CHR ''_''"

definition trim :: "string \<Rightarrow> string" where
  "trim s = rev (dropWhile isWhiteSpace (rev (dropWhile isWhiteSpace s)))"

definition startsWith :: "string \<Rightarrow> string \<Rightarrow> bool" where
  "startsWith s p \<longleftrightarrow> take (length p) s = p"

definition endsWith :: "string \<Rightarrow> string \<Rightarrow> bool" where
  "endsWith s p \<longleftrightarrow> length p \<le> length s \<and> drop (length s - length p) s = p"

text \<open>\<open>s.split(sep)\<close> for a separator of one character.\<close>

fun split :: "char \<Rightarrow> string \<Rightarrow> string list" where
  "split sep [] = [[]]"
| "split sep (x # xs) =
     (if x = sep then [] # split sep xs
      else (case split sep xs of [] \<Rightarrow> [[x]] | y # ys \<Rightarrow> (x # y) # ys))"

text \<open>
  \<open>s.replace(/needle/g, rep)\<close> for a literal, non-empty needle and a replacement without
  \<open>$\<close>: the occurrences are replaced from left to right, without overlap.
\<close>

function replaceAll :: "string \<Rightarrow> string \<Rightarrow> string \<Rightarrow> string" where
  "replaceAll needle rep [] = []"
| "replaceAll needle rep (x # xs) =
     (if needle \<noteq> [] \<and> take (length needle) (x # xs) = needle
      then rep @ replaceAll needle rep (drop (length needle) (x # xs))
      else x # replaceAll needle rep xs)"
  by pat_completeness auto
termination
  by (relation "measure (\<lambda>(needle, rep, s). length s)") auto

definition repeat :: "string \<Rightarrow> nat \<Rightarrow> string" where
  "repeat s n = concat (replicate n s)"

text \<open>The insertion order of \<open>new Set(xs)\<close>: the first occurrence of every element.\<close>

definition set_add :: "'a list \<Rightarrow> 'a \<Rightarrow> 'a list" where
  "set_add acc x = (if x \<in> set acc then acc else acc @ [x])"

definition new_Set :: "'a list \<Rightarrow> 'a list" where
  "new_Set xs = foldl set_add [] xs"

datatype js_error = SyntaxError | TypeError | UnsupportedSyntax

section \<open>Regular expressions\<close>

text \<open>
  The abstract syntax of the regular expressions of the program, and a backtracking matcher
  after the ECMAScript semantics: \<open>run\<close> lists the results of matching at a position in the
  order in which backtracking tries them, so the head is the match the engine reports.
\<close>

datatype class_item = Lit char | Range char char | Space | NonSpace | Word

fun item_matches :: "class_item \<Rightarrow> char \<Rightarrow> bool" where
  "item_matches (Lit x) ch = (ch = x)"
| "item_matches (Range lo hi) ch = (lo \<le> ch \<and> ch \<le> hi)"
| "item_matches Space ch = isWhiteSpace ch"
| "item_matches NonSpace ch = (\<not> isWhiteSpace ch)"
| "item_matches Word ch = isWordChar ch"

datatype regex =
    Empty
  | Chr char
  | Dot
  | Cls bool "class_item list"
  | Bol
  | Eol
  | Seq regex regex
  | Alt regex regex
  | Star bool regex
  | Opt bool regex
  | Group nat regex
  | NotAhead regex

text \<open>
  \<open>Cls neg items\<close> is a character class, negated when \<open>neg\<close>; \<open>Bol\<close> and \<open>Eol\<close> are
  \<open>^\<close> and \<open>$\<close>; \<open>Star g r\<close> and \<open>Opt g r\<close> are \<open>r*\<close> and \<open>r?\<close>, greedy when \<open>g\<close>;
  \<open>Group i r\<close> is the \<open>i\<close>-th capturing group; \<open>NotAhead r\<close> is \<open>(?!r)\<close>.
\<close>

type_synonym captures = "nat \<Rightarrow> (nat \<times> nat) option"

fun groups :: "regex \<Rightarrow> nat list" where
  "groups (Seq a b) = groups a @ groups b"
| "groups (Alt a b) = groups a @ groups b"
| "groups (Star g r) = groups r"
| "groups (Opt g r) = groups r"
| "groups (Group i r) = i # groups r"
| "groups (NotAhead r) = groups r"
| "groups r = []"

definition clear :: "nat list \<Rightarrow> captures \<Rightarrow> captures" where
  "clear is c = (\<lambda>i. if i \<in> set is then None else c i)"

text \<open>
  \<open>run ml s r p c\<close>: the input is \<open>s\<close>, \<open>ml\<close> is the flag \<open>m\<close>, the match starts at index
  \<open>p\<close> with the captures \<open>c\<close>. An iteration of a quantifier starts with the captures of its
  body cleared, and an iteration of \<open>*\<close> or \<open>?\<close> that consumes nothing is rejected.
\<close>

function run :: "bool \<Rightarrow> string \<Rightarrow> regex \<Rightarrow> nat \<Rightarrow> captures \<Rightarrow> (nat \<times> captures) list" where
  "run ml s Empty p c = [(p, c)]"
| "run ml s (Chr x) p c = (if p < length s \<and> s ! p = x then [(Suc p, c)] else [])"
| "run ml s Dot p c =
     (if p < length s \<and> \<not> isLineTerminator (s ! p) then [(Suc p, c)] else [])"
| "run ml s (Cls neg items) p c =
     (if p < length s \<and> (list_ex (\<lambda>i. item_matches i (s ! p)) items \<noteq> neg)
      then [(Suc p, c)] else [])"
| "run ml s Bol p c =
     (if p = 0 \<or> (ml \<and> p \<le> length s \<and> isLineTerminator (s ! (p - 1))) then [(p, c)] else [])"
| "run ml s Eol p c =
     (if p = length s \<or> (ml \<and> p < length s \<and> isLineTerminator (s ! p)) then [(p, c)] else [])"
| "run ml s (Seq a b) p c = concat (map (\<lambda>(q, c'). run ml s b q c') (run ml s a p c))"
| "run ml s (Alt a b) p c = run ml s a p c @ run ml s b p c"
| "run ml s (Star g r) p c =
     (let more = concat (map (\<lambda>(q, c'). if p < q \<and> q \<le> length s
                                          then run ml s (Star g r) q c' else [])
                         (run ml s r p (clear (groups r) c)))
      in if g then more @ [(p, c)] else (p, c) # more)"
| "run ml s (Opt g r) p c =
     (let once = filter (\<lambda>(q, c'). p < q) (run ml s r p (clear (groups r) c))
      in if g then once @ [(p, c)] else (p, c) # once)"
| "run ml s (Group i r) p c = map (\<lambda>(q, c'). (q, c'(i \<mapsto> (p, q)))) (run ml s r p c)"
| "run ml s (NotAhead r) p c = (if run ml s r p c = [] then [(p, c)] else [])"
  by pat_completeness auto
termination
  by (relation "inv_image (measure size <*lex*> measure id)
                  (\<lambda>(ml, s, r, p, c). (r, length s - p))") auto

text \<open>\<open>r+\<close>, \<open>r{n}\<close> followed by \<open>k\<close>, a literal word, and a sequence of terms.\<close>

definition Plus :: "bool \<Rightarrow> regex \<Rightarrow> regex" where
  "Plus g r = Seq r (Star g r)"

fun copies :: "nat \<Rightarrow> regex \<Rightarrow> regex \<Rightarrow> regex" where
  "copies 0 r k = k"
| "copies (Suc n) r k = Seq r (copies n r k)"

fun opts :: "nat \<Rightarrow> bool \<Rightarrow> regex \<Rightarrow> regex" where
  "opts 0 g r = Empty"
| "opts (Suc n) g r = Opt g (Seq r (opts n g r))"

text \<open>\<open>r{lo,hi}\<close>, where \<open>hi = None\<close> is no upper bound: \<open>r*\<close> is \<open>quantify 0 None\<close>.\<close>

definition quantify :: "nat \<Rightarrow> nat option \<Rightarrow> bool \<Rightarrow> regex \<Rightarrow> regex" where
  "quantify lo hi g r =
     copies lo r (case hi of None \<Rightarrow> Star g r | Some h \<Rightarrow> opts (h - lo) g r)"

fun Str :: "string \<Rightarrow> regex" where
  "Str [] = Empty"
| "Str [x] = Chr x"
| "Str (x # xs) = Seq (Chr x) (Str xs)"

fun Seqs :: "regex list \<Rightarrow> regex" where
  "Seqs [] = Empty"
| "Seqs [r] = r"
| "Seqs (r # rs) = Seq r (Seqs rs)"

fun Alts :: "regex list \<Rightarrow> regex" where
  "Alts [] = Empty"
| "Alts [r] = r"
| "Alts (r # rs) = Alt r (Alts rs)"

subsection \<open>Searching\<close>

text \<open>
  \<open>search ml r s i\<close> is one call of \<open>RegExpBuiltinExec\<close> with \<open>lastIndex = i\<close>: the first
  index from \<open>i\<close> on at which \<open>r\<close> matches, with the end of the match and its captures.
\<close>

function search :: "bool \<Rightarrow> regex \<Rightarrow> string \<Rightarrow> nat \<Rightarrow> (nat \<times> nat \<times> captures) option" where
  "search ml r s i =
     (if length s < i then None
      else (case run ml s r i (\<lambda>_. None) of
              [] \<Rightarrow> search ml r s (Suc i)
            | (e, c) # _ \<Rightarrow> Some (i, e, c)))"
  by pat_completeness auto
termination
  by (relation "measure (\<lambda>(ml, r, s, i). Suc (length s) - i)") auto

declare search.simps [simp del]

text \<open>\<open>regex.test(s)\<close> for a regular expression without the flag \<open>g\<close>.\<close>

definition test :: "bool \<Rightarrow> regex \<Rightarrow> string \<Rightarrow> bool" where
  "test ml r s \<longleftrightarrow> search ml r s 0 \<noteq> None"

definition matched :: "string \<Rightarrow> nat \<times> nat \<times> captures \<Rightarrow> string" where
  "matched s m = (case m of (b, e, c) \<Rightarrow> take (e - b) (drop b s))"

text \<open>\<open>match[i]\<close>: \<open>None\<close> is \<open>undefined\<close>.\<close>

definition group :: "string \<Rightarrow> nat \<times> nat \<times> captures \<Rightarrow> nat \<Rightarrow> string option" where
  "group s m i = (case m of (b, e, c) \<Rightarrow> map_option (\<lambda>(x, y). take (y - x) (drop x s)) (c i))"

lemma run_bounds:
  "(q, c') \<in> set (run ml s r p c) \<Longrightarrow> p \<le> length s \<Longrightarrow> p \<le> q \<and> q \<le> length s"
proof (induction ml s r p c arbitrary: q c' rule: run.induct)
  case (7 ml s a b p c)
  then obtain q1 c1 where a: "(q1, c1) \<in> set (run ml s a p c)"
    and b: "(q, c') \<in> set (run ml s b q1 c1)"
    by auto
  from 7(1)[OF a 7(4)] have "p \<le> q1" "q1 \<le> length s" by auto
  moreover from 7(2)[OF a _ b] \<open>q1 \<le> length s\<close> have "q1 \<le> q \<and> q \<le> length s" by auto
  ultimately show ?case by auto
next
  case (9 ml s g r p c)
  show ?case
  proof (cases "(q, c') = (p, c)")
    case True
    then show ?thesis using 9(4) by simp
  next
    case False
    have "(q, c') \<in> set (concat (map (\<lambda>(q, c'). if p < q \<and> q \<le> length s
                                          then run ml s (Star g r) q c' else [])
                         (run ml s r p (clear (groups r) c))))"
      using 9(3) False unfolding run.simps(9)[of ml s g r p c] Let_def
      by (auto simp del: run.simps split: if_splits)
    then obtain q1 c1 where a: "(q1, c1) \<in> set (run ml s r p (clear (groups r) c))"
      and g: "p < q1" "q1 \<le> length s" and b: "(q, c') \<in> set (run ml s (Star g r) q1 c1)"
      by (auto simp del: run.simps split: if_splits)
    from 9(2)[OF a _ _ b] g have "q1 \<le> q \<and> q \<le> length s" by auto
    with g show ?thesis by auto
  qed
qed (auto simp: Let_def split: if_splits)

lemma search_bounds:
  "search ml r s i = Some (b, e, c) \<Longrightarrow> i \<le> b \<and> b \<le> e \<and> e \<le> length s"
proof (induction ml r s i rule: search.induct)
  case (1 ml r s i)
  show ?case
  proof (cases "run ml s r i (\<lambda>_. None)")
    case Nil
    with 1 show ?thesis by (auto simp: search.simps[of ml r s i] split: if_splits)
  next
    case (Cons x xs)
    obtain e' c'' where x: "x = (e', c'')" by (cases x)
    with Cons 1(2) have eq: "\<not> length s < i" "b = i" "e' = e"
      by (auto simp: search.simps[of ml r s i] split: if_splits)
    have "(e', c'') \<in> set (run ml s r i (\<lambda>_. None))" using Cons x by simp
    from run_bounds[OF this] eq show ?thesis by auto
  qed
qed

text \<open>
  The matches of \<open>s.matchAll(regex)\<close> and of \<open>s.match(regex)\<close> for a regular expression with
  the flag \<open>g\<close>: after an empty match the search resumes one index further.
\<close>

function match_all :: "bool \<Rightarrow> regex \<Rightarrow> string \<Rightarrow> nat \<Rightarrow> (nat \<times> nat \<times> captures) list" where
  "match_all ml r s i =
     (case search ml r s i of
        None \<Rightarrow> []
      | Some (b, e, c) \<Rightarrow> (b, e, c) # match_all ml r s (if e = b then Suc e else e))"
  by pat_completeness auto
termination
  by (relation "measure (\<lambda>(ml, r, s, i). Suc (length s) - i)") (auto dest!: search_bounds)

declare match_all.simps [simp del]

definition matchAll :: "bool \<Rightarrow> regex \<Rightarrow> string \<Rightarrow> (nat \<times> nat \<times> captures) list" where
  "matchAll ml r s = match_all ml r s 0"

subsection \<open>The constructor \<open>RegExp\<close>\<close>

text \<open>
  \<open>new RegExp(source)\<close> parses its source and throws a \<open>SyntaxError\<close> when the source is not
  a pattern. The sources that \<open>isIgnored\<close> builds hold a backslash only before a dot and no
  \<open>(?\<close>; an escape of a letter or digit and a group that starts with \<open>?\<close> are outside the
  syntax modelled here (\<open>UnsupportedSyntax\<close>).
\<close>

datatype token =
    TAtom regex
  | TAssert regex
  | TQuant nat "nat option" bool
  | TOpen
  | TClose
  | TBar

definition digits_value :: "string \<Rightarrow> nat" where
  "digits_value ds = foldl (\<lambda>n d. 10 * n + (of_char d - 48)) 0 ds"

text \<open>A class atom: a character, or an escaped character.\<close>

fun class_atom :: "string \<Rightarrow> js_error + (char \<times> string)" where
  "class_atom [] = Inl SyntaxError"
| "class_atom (x # xs) =
     (if x = CHR 0x5C
      then (case xs of
              [] \<Rightarrow> Inl SyntaxError
            | y # ys \<Rightarrow> if isAlnum y then Inl UnsupportedSyntax else Inr (y, ys))
      else Inr (x, xs))"

lemma class_atom_shorter: "class_atom s = Inr (a, r) \<Longrightarrow> length r < length s"
  by (cases s) (auto split: if_splits list.splits)

text \<open>
  The class ranges up to the closing bracket: an atom followed by \<open>-\<close> and a further atom
  is a range, which must be in order.
\<close>

function class_ranges :: "string \<Rightarrow> js_error + (class_item list \<times> string)" where
  "class_ranges [] = Inl SyntaxError"
| "class_ranges (x # xs) =
     (if x = CHR '']'' then Inr ([], xs)
      else (case class_atom (x # xs) of
              Inl e \<Rightarrow> Inl e
            | Inr (a, r1) \<Rightarrow>
                (if 2 \<le> length r1 \<and> hd r1 = CHR ''-'' \<and> r1 ! 1 \<noteq> CHR '']''
                 then (case class_atom (tl r1) of
                         Inl e \<Rightarrow> Inl e
                       | Inr (b, r3) \<Rightarrow>
                           if b < a then Inl SyntaxError
                           else (case class_ranges r3 of
                                   Inl e \<Rightarrow> Inl e
                                 | Inr (items, rest) \<Rightarrow> Inr (Range a b # items, rest)))
                 else (case class_ranges r1 of
                         Inl e \<Rightarrow> Inl e
                       | Inr (items, rest) \<Rightarrow> Inr (Lit a # items, rest)))))"
  by pat_completeness auto
termination
proof (relation "measure length", goal_cases)
  case 1
  show ?case by simp
next
  case (2 x xs y a r1 z b r3)
  from class_atom_shorter[of "x # xs" a r1] class_atom_shorter[of "tl r1" b r3] 2
  show ?case by (cases r1) auto
next
  case (3 x xs y a r1)
  from class_atom_shorter[of "x # xs" a r1] 3 show ?case by auto
qed

lemma class_ranges_shorter: "class_ranges s = Inr (items, rest) \<Longrightarrow> length rest < length s"
proof (induction s arbitrary: items rest rule: class_ranges.induct)
  case 1
  then show ?case by simp
next
  case (2 x xs)
  show ?case
  proof (cases "x = CHR '']''")
    case True
    with 2(3) show ?thesis by auto
  next
    case False
    with 2(3) obtain a r1 where a: "class_atom (x # xs) = Inr (a, r1)"
      by (auto simp del: class_atom.simps split: sum.splits)
    have l1: "length r1 < length (x # xs)" using class_atom_shorter[OF a] .
    show ?thesis
    proof (cases "2 \<le> length r1 \<and> hd r1 = CHR ''-'' \<and> r1 ! 1 \<noteq> CHR '']''")
      case True
      with 2(3) False a obtain b r3 items' where b: "class_atom (tl r1) = Inr (b, r3)"
        and nb: "\<not> b < a" and r: "class_ranges r3 = Inr (items', rest)"
        by (auto simp del: class_atom.simps split: sum.splits if_splits)
      from 2(1)[OF False _ _ True _ _ nb r] a b
      have "length rest < length r3" by auto
      moreover have "length r3 < length (tl r1)" using class_atom_shorter[OF b] .
      ultimately show ?thesis using l1 by auto
    next
      case F2: False
      with 2(3) False a obtain items' where r: "class_ranges r1 = Inr (items', rest)"
        by (auto simp del: class_atom.simps split: sum.splits if_splits)
      from 2(2)[OF False _ _ F2 r] a have "length rest < length r1" by auto
      then show ?thesis using l1 by auto
    qed
  qed
qed

text \<open>What follows an opening brace, when it is a quantifier \<open>{n}\<close>, \<open>{n,}\<close> or \<open>{n,m}\<close>.\<close>

definition braced :: "string \<Rightarrow> ((nat \<times> nat option) \<times> string) option" where
  "braced s =
     (let ds = takeWhile isDigit s; r = dropWhile isDigit s
      in if ds = [] then None
         else (case r of
                 [] \<Rightarrow> None
               | y # t \<Rightarrow>
                   if y = CHR ''}'' then Some ((digits_value ds, Some (digits_value ds)), t)
                   else if y = CHR '','' then
                     (let ds2 = takeWhile isDigit t; r2 = dropWhile isDigit t
                      in (case r2 of
                            [] \<Rightarrow> None
                          | z # u \<Rightarrow>
                              if z = CHR ''}''
                              then Some ((digits_value ds,
                                          if ds2 = [] then None else Some (digits_value ds2)), u)
                              else None))
                   else None))"

text \<open>A quantifier is lazy when a question mark follows it.\<close>

definition lazy_suffix :: "string \<Rightarrow> bool \<times> string" where
  "lazy_suffix s = (case s of [] \<Rightarrow> (True, []) | y # t \<Rightarrow> if y = CHR ''?'' then (False, t) else (True, s))"

definition quantifier :: "nat \<Rightarrow> nat option \<Rightarrow> string \<Rightarrow> js_error + (token \<times> string)" where
  "quantifier lo hi s = (case lazy_suffix s of (g, rest) \<Rightarrow> Inr (TQuant lo hi g, rest))"

definition next_token :: "char \<Rightarrow> string \<Rightarrow> js_error + (token \<times> string)" where
  "next_token x xs =
     (if x = CHR 0x5C then
        (case xs of
           [] \<Rightarrow> Inl SyntaxError
         | y # ys \<Rightarrow> if isAlnum y then Inl UnsupportedSyntax else Inr (TAtom (Chr y), ys))
      else if x = CHR ''['' then
        (case xs of
           [] \<Rightarrow> Inl SyntaxError
         | y # ys \<Rightarrow>
             (case class_ranges (if y = CHR ''^'' then ys else xs) of
                Inl e \<Rightarrow> Inl e
              | Inr (items, rest) \<Rightarrow> Inr (TAtom (Cls (y = CHR ''^'') items), rest)))
      else if x = CHR ''('' then
        (if xs \<noteq> [] \<and> hd xs = CHR ''?'' then Inl UnsupportedSyntax else Inr (TOpen, xs))
      else if x = CHR '')'' then Inr (TClose, xs)
      else if x = CHR ''|'' then Inr (TBar, xs)
      else if x = CHR ''^'' then Inr (TAssert Bol, xs)
      else if x = CHR ''$'' then Inr (TAssert Eol, xs)
      else if x = CHR ''.'' then Inr (TAtom Dot, xs)
      else if x = CHR ''*'' then quantifier 0 None xs
      else if x = CHR ''+'' then quantifier 1 None xs
      else if x = CHR ''?'' then quantifier 0 (Some 1) xs
      else if x = CHR ''{'' then
        (case braced xs of
           None \<Rightarrow> Inr (TAtom (Chr x), xs)
         | Some ((lo, hi), rest) \<Rightarrow>
             (case hi of
                None \<Rightarrow> quantifier lo hi rest
              | Some h \<Rightarrow> if h < lo then Inl SyntaxError else quantifier lo hi rest))
      else Inr (TAtom (Chr x), xs))"

lemma braced_shorter: "braced s = Some (q, rest) \<Longrightarrow> length rest \<le> length s"
proof -
  assume a: "braced s = Some (q, rest)"
  have d: "\<And>t. length (dropWhile isDigit t) \<le> length t" by (rule length_dropWhile_le)
  from a obtain y t where r: "dropWhile isDigit s = y # t"
    by (auto simp: braced_def Let_def split: if_splits list.splits)
  have lt: "length t < length s" using d[of s] r by simp
  show ?thesis
  proof (cases "y = CHR ''}''")
    case True
    with a r have "rest = t" by (auto simp: braced_def Let_def split: if_splits)
    with lt show ?thesis by simp
  next
    case False
    with a r obtain z where "dropWhile isDigit t = z # rest"
      by (auto simp: braced_def Let_def split: if_splits list.splits)
    with d[of t] lt show ?thesis by simp
  qed
qed

lemma quantifier_shorter: "quantifier lo hi s = Inr (t, rest) \<Longrightarrow> length rest \<le> length s"
  by (auto simp: quantifier_def lazy_suffix_def split: list.splits if_splits)

lemma next_token_shorter: "next_token x xs = Inr (t, rest) \<Longrightarrow> length rest \<le> length xs"
  unfolding next_token_def
  by (auto simp del: class_ranges.simps split: if_splits list.splits sum.splits option.splits
           dest!: class_ranges_shorter braced_shorter quantifier_shorter)

function lex :: "string \<Rightarrow> js_error + token list" where
  "lex [] = Inr []"
| "lex (x # xs) =
     (case next_token x xs of
        Inl e \<Rightarrow> Inl e
      | Inr (t, rest) \<Rightarrow> (case lex rest of Inl e \<Rightarrow> Inl e | Inr ts \<Rightarrow> Inr (t # ts)))"
  by pat_completeness auto
termination
  by (relation "measure length") (auto dest!: next_token_shorter)

text \<open>
  The parser keeps one frame for every group that is open, the innermost first: the index
  of the group, its finished alternatives and the terms of the current alternative (the
  latest first), and whether the latest term can take a quantifier.
\<close>

type_synonym frame = "nat \<times> regex list \<times> regex list \<times> bool"

definition close_frame :: "frame \<Rightarrow> regex" where
  "close_frame f = (case f of (i, alts, terms, q) \<Rightarrow> Alts (rev (Seqs (rev terms) # alts)))"

fun parse :: "token list \<Rightarrow> frame list \<Rightarrow> nat \<Rightarrow> js_error + regex" where
  "parse ts [] n = Inl SyntaxError"
| "parse [] (f # st) n = (if st = [] then Inr (close_frame f) else Inl SyntaxError)"
| "parse (TAtom a # ts) ((i, alts, terms, q) # st) n =
     parse ts ((i, alts, a # terms, True) # st) n"
| "parse (TAssert a # ts) ((i, alts, terms, q) # st) n =
     parse ts ((i, alts, a # terms, False) # st) n"
| "parse (TQuant lo hi g # ts) ((i, alts, terms, q) # st) n =
     (case terms of
        [] \<Rightarrow> Inl SyntaxError
      | t # terms' \<Rightarrow>
          if q then parse ts ((i, alts, quantify lo hi g t # terms', False) # st) n
          else Inl SyntaxError)"
| "parse (TBar # ts) ((i, alts, terms, q) # st) n =
     parse ts ((i, Seqs (rev terms) # alts, [], False) # st) n"
| "parse (TOpen # ts) (f # st) n = parse ts ((Suc n, [], [], False) # f # st) (Suc n)"
| "parse (TClose # ts) (f # st) n =
     (case st of
        [] \<Rightarrow> Inl SyntaxError
      | (i, alts, terms, q) # st' \<Rightarrow>
          parse ts ((i, alts, Group (fst f) (close_frame f) # terms, True) # st') n)"

definition RegExp :: "string \<Rightarrow> js_error + regex" where
  "RegExp source =
     (case lex source of Inl e \<Rightarrow> Inl e | Inr ts \<Rightarrow> parse ts [(0, [], [], False)] 0)"

section \<open>The ignore patterns\<close>

definition normalizePattern :: "string \<Rightarrow> string" where
  "normalizePattern pattern =
     (let p0 = replaceAll [CHR 0x5C] ''/'' (trim pattern);
          p1 = (if startsWith p0 ''/'' then drop 1 p0 else p0)
      in if endsWith p1 ''/'' then take (length p1 - 1) p1 else p1)"

definition regexPattern :: "string \<Rightarrow> string" where
  "regexPattern normalizedPattern =
     replaceAll ''?'' ''[^/]''
       (replaceAll ''*'' ''[^/]*''
         (replaceAll ''**'' ''.*''
           (replaceAll ''.'' [CHR 0x5C, CHR ''.''] normalizedPattern)))"

definition regexSource :: "string \<Rightarrow> string" where
  "regexSource rp =
     ''^'' @ rp @ ''$|'' @ ''^'' @ rp @ ''/|'' @ ''^.*?/'' @ rp @ ''$|'' @ ''^.*?/'' @ rp @ ''/.*$''"

text \<open>The callback of \<open>patterns.some\<close>.\<close>

definition patternMatches :: "string \<Rightarrow> string \<Rightarrow> js_error + bool" where
  "patternMatches normalizedPath pattern =
     (case RegExp (regexSource (regexPattern (normalizePattern pattern))) of
        Inl e \<Rightarrow> Inl e
      | Inr regex \<Rightarrow> Inr (test False regex normalizedPath))"

text \<open>
  \<open>xs.some(f)\<close> stops at the first element for which \<open>f\<close> is true, and an exception of \<open>f\<close>
  ends it.
\<close>

fun some :: "('a \<Rightarrow> js_error + bool) \<Rightarrow> 'a list \<Rightarrow> js_error + bool" where
  "some f [] = Inr False"
| "some f (x # xs) =
     (case f x of Inl e \<Rightarrow> Inl e | Inr b \<Rightarrow> if b then Inr True else some f xs)"

definition isIgnored :: "string \<Rightarrow> string list \<Rightarrow> js_error + bool" where
  "isIgnored filePath patterns =
     (let normalizedPath = replaceAll [CHR 0x5C] ''/'' filePath
      in some (patternMatches normalizedPath) patterns)"

section \<open>The file system\<close>

text \<open>
  A snapshot of the file system below a path. \<open>File c\<close> is a file, \<open>c\<close> the result of
  reading it. \<open>Dir listing child\<close> is a directory: \<open>listing\<close> is the result of \<open>readdir\<close>,
  in the order of enumeration, and \<open>child name\<close> is what lies at \<open>path.join(dir, name)\<close>,
  \<open>None\<close> when \<open>access\<close> and \<open>stat\<close> fail there. A path is identified with the node at it,
  and \<open>path.relative(dir, path.join(dir, name))\<close> is \<open>name\<close>.
\<close>

datatype fs_error = IOError

datatype fsnode =
    File "fs_error + string"
  | Dir "fs_error + string list" "string \<Rightarrow> fsnode option"

definition join :: "fsnode \<Rightarrow> string \<Rightarrow> fsnode option" where
  "join dir name = (case dir of File c \<Rightarrow> None | Dir listing child \<Rightarrow> child name)"

definition readFile :: "fsnode \<Rightarrow> fs_error + string" where
  "readFile node = (case node of File c \<Rightarrow> c | Dir listing child \<Rightarrow> Inl IOError)"

definition readdir :: "fsnode \<Rightarrow> fs_error + string list" where
  "readdir node = (case node of File c \<Rightarrow> Inl IOError | Dir listing child \<Rightarrow> listing)"

definition isDirectory :: "fsnode \<Rightarrow> bool" where
  "isDirectory node = (case node of File c \<Rightarrow> False | Dir listing child \<Rightarrow> True)"

text \<open>\<open>path.extname\<close> of a name without separator.\<close>

definition extname :: "string \<Rightarrow> string" where
  "extname file =
     (if CHR ''.'' \<notin> set file then []
      else (let ext = CHR ''.'' # rev (takeWhile (\<lambda>ch. ch \<noteq> CHR ''.'') (rev file))
            in if length ext = length file \<or> file = ''..'' then [] else ext))"

section \<open>loadGitignorePatterns\<close>

definition defaultPatterns :: "string list" where
  "defaultPatterns =
     [''node_modules'', ''.git'', ''__pycache__'', ''*.pyc'', ''*.pyo'', ''*.pyd'', ''.Python'',
      ''*.so'', ''env'', ''venv'', ''.env'', ''.venv'', ''ENV'', ''env.bak'', ''venv.bak'']"

definition gitignoreLines :: "string \<Rightarrow> string list" where
  "gitignoreLines content =
     filter (\<lambda>line. if line = [] \<or> startsWith line ''#'' then False
                     else if startsWith line ''!'' then False
                     else True)
       (map trim (split (CHR 0x0A) content))"

definition loadGitignorePatterns :: "fsnode \<Rightarrow> string list" where
  "loadGitignorePatterns rootPath =
     (case join rootPath ''.gitignore'' of
        None \<Rightarrow> ''.*'' # defaultPatterns
      | Some gitignorePath \<Rightarrow>
          (case readFile gitignorePath of
             Inl error \<Rightarrow> [] @ defaultPatterns
           | Inr content \<Rightarrow> gitignoreLines content @ defaultPatterns))"

section \<open>analyzeFileContent\<close>

record FileAnalysis =
  "imports" :: "string list"
  "functions" :: "string list"
  classes :: "string list"
  exports :: "string list"
  methods :: "string list"
  components :: "string list"

definition no_analysis :: FileAnalysis where
  "no_analysis = \<lparr>imports = [], functions = [], classes = [], exports = [], methods = [],
                   components = []\<rparr>"

subsection \<open>The regular expressions of the two profiles\<close>

definition ws :: regex where
  "ws = Cls False [Space]"

definition nws :: regex where
  "nws = Cls True [Space]"

definition word :: regex where
  "word = Cls False [Word]"

definition quote :: regex where
  "quote = Cls False [Lit (CHR 0x22), Lit (CHR 0x27)]"

definition not_quote :: regex where
  "not_quote = Cls True [Lit (CHR 0x22), Lit (CHR 0x27)]"

definition params :: regex where
  "params = Seqs [Chr CHR ''('', Star True (Cls True [Lit CHR '')'']), Chr CHR '')'']"

definition sp :: regex where
  "sp = Plus True ws"

definition osp :: regex where
  "osp = Star True ws"

text \<open>\<open>[a-zA-Z_$][a-zA-Z0-9_$]*\<close> and \<open>[a-zA-Z_][a-zA-Z0-9_]*\<close>\<close>

definition js_ident :: regex where
  "js_ident =
     Seq (Cls False [Range CHR ''a'' CHR ''z'', Range CHR ''A'' CHR ''Z'', Lit CHR ''_'', Lit CHR ''$''])
         (Star True (Cls False [Range CHR ''a'' CHR ''z'', Range CHR ''A'' CHR ''Z'',
                                Range CHR ''0'' CHR ''9'', Lit CHR ''_'', Lit CHR ''$'']))"

definition py_ident :: regex where
  "py_ident =
     Seq (Cls False [Range CHR ''a'' CHR ''z'', Range CHR ''A'' CHR ''Z'', Lit CHR ''_''])
         (Star True (Cls False [Range CHR ''a'' CHR ''z'', Range CHR ''A'' CHR ''Z'',
                                Range CHR ''0'' CHR ''9'', Lit CHR ''_'']))"

definition js_importRegex :: regex where
  "js_importRegex =
     Alt (Seqs [Bol, Str ''import'', sp,
                Alt (Seqs [Chr CHR ''{'',
                           Star True (Seq (Cls False [Space, NonSpace]) (NotAhead (Str ''from''))),
                           osp, Chr CHR ''}''])
                    (Seqs [Chr CHR ''*'', sp, Str ''as'', sp, Plus True word]),
                sp, Str ''from'', sp, quote, Plus True not_quote, quote])
         (Seqs [Bol, Str ''import'', sp, Plus True word, sp, Str ''from'', sp,
                quote, Plus True not_quote, quote])"

definition js_functionRegex :: regex where
  "js_functionRegex =
     Alt (Seqs [Opt True (Seq (Str ''export'') sp), Opt True (Seq (Str ''async'') sp),
                Alt (Seqs [Str ''function'', sp, Group 1 js_ident])
                    (Seqs [Alts [Str ''const'', Str ''let'', Str ''var''], sp, Group 2 js_ident,
                           osp, Chr CHR ''='', osp, Opt True (Seq (Str ''async'') sp),
                           params, osp, Str ''=>''])])
         (Seqs [Opt True (Seq (Str ''async'') sp), Str ''function'', sp, Group 3 js_ident,
                osp, Chr CHR ''(''])"

definition js_classRegex :: regex where
  "js_classRegex = Seqs [Opt True (Seq (Str ''export'') sp), Str ''class'', sp, Group 1 js_ident]"

definition js_methodRegex :: regex where
  "js_methodRegex =
     Seqs [Opt True (Alts [Str ''public'', Str ''private'', Str ''protected'']), osp,
           Opt True (Seq (Str ''async'') sp), Group 1 js_ident, osp, params, osp, Chr CHR ''{'']"

text \<open>\<open>/[A-Z][a-zA-Z0-9]*/\<close>, which the method loop tests on the name.\<close>

definition capitalRegex :: regex where
  "capitalRegex =
     Seq (Cls False [Range CHR ''A'' CHR ''Z''])
         (Star True (Cls False [Range CHR ''a'' CHR ''z'', Range CHR ''A'' CHR ''Z'',
                                Range CHR ''0'' CHR ''9'']))"

definition js_exportRegex :: regex where
  "js_exportRegex =
     Seqs [Bol, Str ''export'', sp,
           Alts [Str ''const'', Str ''let'', Str ''var'', Str ''function'', Str ''class'',
                 Str ''interface'', Str ''type''],
           sp, Group 1 js_ident]"

definition reactComponentRegex :: regex where
  "reactComponentRegex =
     Seqs [Alts [Str ''const'', Str ''let'', Str ''var'', Str ''function''], sp,
           Group 1 (Seq (Cls False [Range CHR ''A'' CHR ''Z''])
                        (Star True (Cls False [Range CHR ''a'' CHR ''z'', Range CHR ''A'' CHR ''Z'',
                                               Range CHR ''0'' CHR ''9'', Lit CHR ''_'', Lit CHR ''$'']))),
           osp, Chr CHR ''='', osp,
           Alt (Seqs [params, osp, Str ''=>'']) (Seqs [params, osp, Chr CHR ''{''])]"

definition py_importRegex :: regex where
  "py_importRegex =
     Seqs [Bol, Opt True (Seqs [Str ''from'', sp, Group 1 (Plus True nws), sp]),
           Str ''import'', sp,
           Group 2 (Seq (Plus True nws) (Star True (Seqs [Chr CHR '','', osp, Plus True nws]))),
           Opt True (Seqs [sp, Str ''as'', sp, Group 3 (Plus True nws)]),
           Eol]"

definition py_functionRegex :: regex where
  "py_functionRegex = Seqs [Bol, Str ''def'', sp, Group 1 py_ident, osp, Chr CHR ''('']"

definition py_classRegex :: regex where
  "py_classRegex =
     Seqs [Bol, Str ''class'', sp, Group 1 py_ident, osp, Opt True params, osp, Chr CHR '':'']"

definition py_methodRegex :: regex where
  "py_methodRegex =
     Seq Bol (copies 4 (Chr CHR '' '')
                (Seqs [Str ''def'', sp, Group 1 py_ident, osp, params, osp, Chr CHR '':'']))"

text \<open>A lower bound on the length of every match.\<close>

fun min_len :: "regex \<Rightarrow> nat" where
  "min_len (Chr x) = 1"
| "min_len Dot = 1"
| "min_len (Cls neg items) = 1"
| "min_len (Seq a b) = min_len a + min_len b"
| "min_len (Alt a b) = min (min_len a) (min_len b)"
| "min_len (Group i r) = min_len r"
| "min_len r = 0"

lemma run_min_len: "(q, c') \<in> set (run ml s r p c) \<Longrightarrow> p + min_len r \<le> q"
proof (induction ml s r p c arbitrary: q c' rule: run.induct)
  case (7 ml s a b p c)
  then obtain q1 c1 where a: "(q1, c1) \<in> set (run ml s a p c)"
    and b: "(q, c') \<in> set (run ml s b q1 c1)"
    by auto
  from 7(1)[OF a] 7(2)[OF a _ b] show ?case by auto
next
  case (9 ml s g r p c)
  show ?case
  proof (cases "(q, c') = (p, c)")
    case True
    then show ?thesis by simp
  next
    case False
    have "(q, c') \<in> set (concat (map (\<lambda>(q, c'). if p < q \<and> q \<le> length s
                                          then run ml s (Star g r) q c' else [])
                         (run ml s r p (clear (groups r) c))))"
      using 9(3) False unfolding run.simps(9)[of ml s g r p c] Let_def
      by (auto simp del: run.simps split: if_splits)
    then obtain q1 c1 where a: "(q1, c1) \<in> set (run ml s r p (clear (groups r) c))"
      and g: "p < q1" "q1 \<le> length s" and b: "(q, c') \<in> set (run ml s (Star g r) q1 c1)"
      by (auto simp del: run.simps split: if_splits)
    from 9(2)[OF a _ _ b] g show ?thesis by auto
  qed
next
  case (8 ml s a b p c)
  from 8(3) have "(q, c') \<in> set (run ml s a p c) \<or> (q, c') \<in> set (run ml s b p c)" by auto
  then show ?case
  proof
    assume "(q, c') \<in> set (run ml s a p c)"
    from 8(1)[OF this] show ?thesis by simp
  next
    assume "(q, c') \<in> set (run ml s b p c)"
    from 8(2)[OF this] show ?thesis by simp
  qed
qed (auto simp: Let_def split: if_splits)

lemma search_run:
  "search ml r s i = Some (b, e, c) \<Longrightarrow> (e, c) \<in> set (run ml s r b (\<lambda>_. None))"
proof (induction ml r s i rule: search.induct)
  case (1 ml r s i)
  then show ?case
    by (cases "run ml s r i (\<lambda>_. None)")
       (auto simp: search.simps[of ml r s i] split: if_splits)
qed

lemma min_len_py_importRegex: "min_len py_importRegex = 8"
  by (simp add: py_importRegex_def sp_def osp_def Plus_def ws_def nws_def)

text \<open>
  The loop \<open>while ((importMatches = importRegex.exec(content)) !== null)\<close> of the
  indentation-scripting profile: every call of \<open>exec\<close> resumes at the end of the match
  before it.
\<close>

function py_import_exec :: "string \<Rightarrow> nat \<Rightarrow> (nat \<times> nat \<times> captures) list" where
  "py_import_exec content lastIndex =
     (case search True py_importRegex content lastIndex of
        None \<Rightarrow> []
      | Some (b, e, c) \<Rightarrow> (b, e, c) # py_import_exec content e)"
  by pat_completeness auto
termination
proof (relation "measure (\<lambda>(content, lastIndex). Suc (length content) - lastIndex)", goal_cases)
  case 1
  show ?case by simp
next
  case (2 content lastIndex m b ec e c)
  then have s: "search True py_importRegex content lastIndex = Some (b, e, c)" by simp
  from run_min_len[OF search_run[OF s]] search_bounds[OF s] min_len_py_importRegex
  show ?case by auto
qed

declare py_import_exec.simps [simp del]

subsection \<open>The two profiles\<close>

text \<open>A value is pushed when it is truthy: defined and not the empty string.\<close>

definition truthy :: "string option \<Rightarrow> string list" where
  "truthy v = (case v of None \<Rightarrow> [] | Some t \<Rightarrow> if t = [] then [] else [t])"

text \<open>\<open>a || b\<close>\<close>

definition or_else :: "string option \<Rightarrow> string option \<Rightarrow> string option" where
  "or_else a b = (if truthy a = [] then b else a)"

text \<open>A value in a template literal or as an element of a string array.\<close>

definition to_string :: "string option \<Rightarrow> string" where
  "to_string v = (case v of None \<Rightarrow> ''undefined'' | Some t \<Rightarrow> t)"

definition blockList :: "string list" where
  "blockList = [''constructor'', ''if'', ''for'', ''while'', ''switch'', ''catch'']"

definition js_methods :: "string \<Rightarrow> string list" where
  "js_methods content =
     concat (map (\<lambda>m. case group content m 1 of
                         None \<Rightarrow> []
                       | Some name \<Rightarrow>
                           if name \<noteq> [] \<and> name \<notin> set blockList \<and> \<not> test False capitalRegex name
                           then [name] else [])
                 (matchAll True js_methodRegex content))"

text \<open>The entries that one match of the import loop pushes.\<close>

definition py_import_entries :: "string \<Rightarrow> nat \<times> nat \<times> captures \<Rightarrow> js_error + string list" where
  "py_import_entries content importMatches =
     (let fromModule = (case truthy (group content importMatches 1) of
                          [] \<Rightarrow> []
                        | t # _ \<Rightarrow> trim t @ ''.'')
      in (case group content importMatches 2 of
            None \<Rightarrow> Inl TypeError
          | Some names \<Rightarrow>
              (let importedNames = map trim (split CHR '','' names);
                   asName = (case truthy (group content importMatches 3) of
                               [] \<Rightarrow> []
                             | t # _ \<Rightarrow> '' as '' @ trim t)
               in Inr (map (\<lambda>name. ''import '' @ fromModule @ name @ asName) importedNames))))"

fun py_imports :: "string \<Rightarrow> (nat \<times> nat \<times> captures) list \<Rightarrow> js_error + string list" where
  "py_imports content [] = Inr []"
| "py_imports content (m # ms) =
     (case py_import_entries content m of
        Inl e \<Rightarrow> Inl e
      | Inr entries \<Rightarrow>
          (case py_imports content ms of Inl e \<Rightarrow> Inl e | Inr rest \<Rightarrow> Inr (entries @ rest)))"

definition analyzeFileContent :: "string \<Rightarrow> string \<Rightarrow> js_error + FileAnalysis" where
  "analyzeFileContent content ext =
     (if ext \<in> set [''.js'', ''.ts'', ''.jsx'', ''.tsx''] then
        Inr \<lparr>imports = map (\<lambda>m. trim (matched content m)) (matchAll True js_importRegex content),
             functions = concat (map (\<lambda>m. truthy (or_else (group content m 1) (group content m 2)))
                                     (matchAll True js_functionRegex content)),
             classes = concat (map (\<lambda>m. truthy (group content m 1))
                                   (matchAll True js_classRegex content)),
             exports = concat (map (\<lambda>m. truthy (group content m 1))
                                   (matchAll True js_exportRegex content)),
             methods = js_methods content,
             components = concat (map (\<lambda>m. truthy (group content m 1))
                                      (matchAll True reactComponentRegex content))\<rparr>
      else if ext = ''.py'' then
        (case py_imports content (py_import_exec content 0) of
           Inl e \<Rightarrow> Inl e
         | Inr imps \<Rightarrow>
             Inr \<lparr>imports = imps,
                  functions = new_Set (map (\<lambda>m. to_string (group content m 1))
                                           (matchAll True py_functionRegex content)),
                  classes = concat (map (\<lambda>m. truthy (group content m 1))
                                        (matchAll True py_classRegex content)),
                  exports = [],
                  methods = new_Set (map (\<lambda>m. to_string (group content m 1))
                                         (matchAll True py_methodRegex content)),
                  components = []\<rparr>)
      else Inr no_analysis)"

section \<open>formatAnalysis\<close>

definition newline :: string where
  "newline = [CHR 0x0A]"

definition section_lines :: "string \<Rightarrow> string \<Rightarrow> string list \<Rightarrow> string" where
  "section_lines indent label entries =
     (if length entries > 0
      then indent @ ''  - '' @ label @ '':'' @ newline
           @ concat (map (\<lambda>e. indent @ ''    - '' @ e @ newline) entries)
      else [])"

definition formatAnalysis :: "FileAnalysis \<Rightarrow> string \<Rightarrow> string" where
  "formatAnalysis analysis indent =
     section_lines indent ''Imports'' (imports analysis)
     @ section_lines indent ''Exports'' (exports analysis)
     @ section_lines indent ''Functions'' (functions analysis)
     @ section_lines indent ''Classes'' (classes analysis)
     @ section_lines indent ''Methods'' (methods analysis)
     @ section_lines indent ''Components'' (components analysis)"

section \<open>scanDirectory\<close>

text \<open>The two glyphs of the tree, as their UTF-8 bytes.\<close>

definition folder_glyph :: string where
  "folder_glyph = [CHR 0xF0, CHR 0x9F, CHR 0x93, CHR 0x81]"

definition file_glyph :: string where
  "file_glyph = [CHR 0xF0, CHR 0x9F, CHR 0x93, CHR 0x84]"

text \<open>
  One iteration of the loop over the sorted entries leaves the content for the next
  iteration, or throws: the \<open>catch\<close> around the loop then ends the scan of the directory with
  the content built so far.
\<close>

datatype iteration = Continue string | Caught string

text \<open>
  \<open>stats\<close> is the result of \<open>fs.stat(fullPath)\<close>, \<open>None\<close> when it fails, together with the
  result of \<open>scanDirectory(fullPath, ignorePatterns, level + 1)\<close>.
\<close>

definition scan_entry ::
  "string list \<Rightarrow> string \<Rightarrow> string \<Rightarrow> (fsnode \<times> string) option \<Rightarrow> string \<Rightarrow> iteration" where
  "scan_entry ignorePatterns indent file stats content =
     (case stats of
        None \<Rightarrow> Caught content
      | Some (fullPath, subdirectory) \<Rightarrow>
          (case isIgnored file ignorePatterns of
             Inl e \<Rightarrow> Caught content
           | Inr ignored \<Rightarrow>
               if ignored then Continue content
               else if isDirectory fullPath then
                 Continue (content @ indent @ ''- '' @ folder_glyph @ '' '' @ file @ ''/'' @ newline
                           @ subdirectory)
               else
                 (let ext = extname file;
                      content' = content @ indent @ ''- '' @ file_glyph @ '' '' @ file @ newline
                  in if ext \<in> set [''.js'', ''.ts'', ''.jsx'', ''.tsx'', ''.vue'', ''.py''] then
                       (case readFile fullPath of
                          Inl e \<Rightarrow> Caught content'
                        | Inr fileContent \<Rightarrow>
                            (case analyzeFileContent fileContent ext of
                               Inl e \<Rightarrow> Caught content'
                             | Inr analysis \<Rightarrow>
                                 Continue (content' @ formatAnalysis analysis indent)))
                     else Continue content')))"

fun scan_loop :: "(string \<Rightarrow> string \<Rightarrow> iteration) \<Rightarrow> string list \<Rightarrow> string \<Rightarrow> string" where
  "scan_loop body [] content = content"
| "scan_loop body (file # files) content =
     (case body file content of
        Caught content' \<Rightarrow> content'
      | Continue content' \<Rightarrow> scan_loop body files content')"

primrec scanDirectory :: "fsnode \<Rightarrow> string list \<Rightarrow> nat \<Rightarrow> string" where
  "scanDirectory (File c) ignorePatterns level = []"
| "scanDirectory (Dir listing child) ignorePatterns level =
     (case listing of
        Inl e \<Rightarrow> []
      | Inr files \<Rightarrow>
          scan_loop
            (\<lambda>file. scan_entry ignorePatterns (repeat ''  '' level) file
                       (map_option (\<lambda>fullPath. (fullPath, scanDirectory fullPath ignorePatterns (level + 1)))
                          (child file)))
            (sort files) [])"

section \<open>analyzeWorkspace and generateStructure\<close>

text \<open>
  The value of \<open>JSON.parse(packageJsonContent)\<close>, as far as the program reads it: \<open>Null\<close>,
  on which reading a property throws, or the texts that \<open>name\<close> and \<open>version\<close> have in a
  template literal, and the text of \<open>description\<close> when it is truthy. The parser itself is a
  parameter of the model.
\<close>

datatype packageJson = Null | Package string string "string option"

definition projectInfo :: "(string \<Rightarrow> js_error + packageJson) \<Rightarrow> fsnode \<Rightarrow> string" where
  "projectInfo JSON_parse rootPath =
     (case join rootPath ''package.json'' of
        None \<Rightarrow> []
      | Some packageJsonPath \<Rightarrow>
          (case readFile packageJsonPath of
             Inl e \<Rightarrow> []
           | Inr packageJsonContent \<Rightarrow>
               (case JSON_parse packageJsonContent of
                  Inl e \<Rightarrow> []
                | Inr Null \<Rightarrow> ''## Project Info'' @ newline
                | Inr (Package name version description) \<Rightarrow>
                    ''## Project Info'' @ newline
                    @ ''- Name: '' @ name @ newline
                    @ ''- Version: '' @ version @ newline
                    @ ''- Description: ''
                    @ (case description of None \<Rightarrow> ''No description provided'' | Some d \<Rightarrow> d)
                    @ newline @ newline)))"

definition configSection :: "fsnode \<Rightarrow> string \<Rightarrow> string" where
  "configSection rootPath configFile =
     (case join rootPath configFile of
        None \<Rightarrow> []
      | Some configFilePath \<Rightarrow>
          (case readFile configFilePath of
             Inl e \<Rightarrow> []
           | Inr content \<Rightarrow>
               ''### '' @ configFile @ newline @ ''```'' @ newline @ content @ newline @ ''```''
               @ newline @ newline))"

definition analyzeWorkspace :: "(string \<Rightarrow> js_error + packageJson) \<Rightarrow> fsnode \<Rightarrow> string" where
  "analyzeWorkspace JSON_parse rootPath =
     (let ignorePatterns = loadGitignorePatterns rootPath;
          markdown = ''# Workspace Structure'' @ newline @ newline
                     @ ''Files listed in .gitignore will be excluded.'' @ newline @ newline;
          markdown = markdown @ projectInfo JSON_parse rootPath;
          markdown = markdown @ ''## Configuration Files'' @ newline @ newline;
          markdown = markdown
                     @ concat (map (configSection rootPath)
                                   [''requirements.txt'', ''pyproject.toml'', ''package.json'']);
          markdown = markdown @ ''## File Structure'' @ newline @ newline
      in markdown @ scanDirectory rootPath ignorePatterns 0)"

text \<open>
  The host of the extension: the workspace folders, the two settings, \<open>JSON.parse\<close>, and
  whether creating the output directory, writing the file and showing it succeed.
\<close>

record host =
  workspaceFolders :: "fsnode list"
  outputPath :: "string option"
  structureFileName :: "string option"
  JSON_parse :: "string \<Rightarrow> js_error + packageJson"
  mkdir_ok :: bool
  writeFile_ok :: bool
  show_ok :: bool

datatype message = OpenFolderFirst | GeneratedSuccessfully | FailedToGenerate

text \<open>
  What a run leaves: the file written, as the output directory and the file name below the
  workspace folder and the text, and the message shown.
\<close>

record effects =
  written :: "(string \<times> string \<times> string) option"
  shown :: message

definition generateStructure :: "host \<Rightarrow> effects" where
  "generateStructure h =
     (case workspaceFolders h of
        [] \<Rightarrow> \<lparr>written = None, shown = OpenFolderFirst\<rparr>
      | workspaceFolder # _ \<Rightarrow>
          (let outputDir = (case truthy (outputPath h) of [] \<Rightarrow> [] | d # _ \<Rightarrow> d);
               fileName = (case truthy (structureFileName h) of
                             [] \<Rightarrow> ''workspace-structure.md''
                           | f # _ \<Rightarrow> f);
               documentation = analyzeWorkspace (JSON_parse h) workspaceFolder
           in if \<not> mkdir_ok h then \<lparr>written = None, shown = FailedToGenerate\<rparr>
              else if \<not> writeFile_ok h then \<lparr>written = None, shown = FailedToGenerate\<rparr>
              else if \<not> show_ok h
                then \<lparr>written = Some (outputDir, fileName, documentation), shown = FailedToGenerate\<rparr>
              else \<lparr>written = Some (outputDir, fileName, documentation),
                    shown = GeneratedSuccessfully\<rparr>))"

section \<open>Notions for the properties\<close>

text \<open>
  \<open>always_sets i r\<close>: every match of \<open>r\<close> leaves the group \<open>i\<close> defined. \<open>needs_ink r\<close>: \<open>r\<close>
  matches no text that is white space only.
\<close>

fun always_sets :: "nat \<Rightarrow> regex \<Rightarrow> bool" where
  "always_sets i (Group j r) = (i = j \<or> always_sets i r)"
| "always_sets i (Seq a b) = (always_sets i b \<or> (always_sets i a \<and> i \<notin> set (groups b)))"
| "always_sets i (Alt a b) = (always_sets i a \<and> always_sets i b)"
| "always_sets i r = False"

definition white_space :: "char list" where
  "white_space = [CHR 0x09, CHR 0x0A, CHR 0x0B, CHR 0x0C, CHR 0x0D, CHR 0x20, CHR 0xA0]"

fun needs_ink :: "regex \<Rightarrow> bool" where
  "needs_ink (Chr x) = (\<not> isWhiteSpace x)"
| "needs_ink (Cls neg items) = list_all (\<lambda>w. list_ex (\<lambda>i. item_matches i w) items = neg) white_space"
| "needs_ink (Seq a b) = (needs_ink a \<or> needs_ink b)"
| "needs_ink (Alt a b) = (needs_ink a \<and> needs_ink b)"
| "needs_ink (Group i r) = needs_ink r"
| "needs_ink r = False"

definition blank :: "string \<Rightarrow> bool" where
  "blank s \<longleftrightarrow> list_all isWhiteSpace s"

text \<open>
  Two snapshots are the same tree when they differ at most in the order in which the
  directories enumerate their entries.
\<close>

inductive same_tree :: "fsnode \<Rightarrow> fsnode \<Rightarrow> bool" where
  same_file: "same_tree (File c) (File c)"
| same_unlisted: "(\<And>name. (child name = None \<and> child' name = None) \<or>
        (\<exists>n n'. child name = Some n \<and> child' name = Some n' \<and> same_tree n n'))
     \<Longrightarrow> same_tree (Dir (Inl e) child) (Dir (Inl e) child')"
| same_listed: "mset files = mset files' \<Longrightarrow>
     (\<And>name. (child name = None \<and> child' name = None) \<or>
        (\<exists>n n'. child name = Some n \<and> child' name = Some n' \<and> same_tree n n'))
     \<Longrightarrow> same_tree (Dir (Inr files) child) (Dir (Inr files') child')"

text \<open>The text that the iteration for one entry adds to the content.\<close>

definition entry_text :: "string list \<Rightarrow> string \<Rightarrow> string \<Rightarrow> (fsnode \<times> string) option \<Rightarrow> string" where
  "entry_text ignorePatterns indent file stats =
     (case scan_entry ignorePatterns indent file stats [] of
        Continue text \<Rightarrow> text
      | Caught text \<Rightarrow> text)"

text \<open>
  The text of an entry that is processed without error: nothing for an ignored entry, the
  line of a directory and the scan of it, the line of a file and, for a recognized extension,
  its analysis. An entry is \<open>readable\<close> when \<open>stat\<close> and \<open>isIgnored\<close> return on it and, where
  its content is read, the read succeeds.
\<close>

definition recognized :: "string list" where
  "recognized = [''.js'', ''.ts'', ''.jsx'', ''.tsx'', ''.vue'', ''.py'']"

definition entry_block :: "string list \<Rightarrow> nat \<Rightarrow> (string \<Rightarrow> fsnode option) \<Rightarrow> string \<Rightarrow> string" where
  "entry_block ignorePatterns level child name =
     (case child name of
        None \<Rightarrow> []
      | Some node \<Rightarrow>
          if isIgnored name ignorePatterns \<noteq> Inr False then []
          else if isDirectory node then
            repeat ''  '' level @ ''- '' @ folder_glyph @ '' '' @ name @ ''/'' @ newline
            @ scanDirectory node ignorePatterns (level + 1)
          else
            repeat ''  '' level @ ''- '' @ file_glyph @ '' '' @ name @ newline
            @ (if extname name \<in> set recognized
               then (case readFile node of
                       Inl e \<Rightarrow> []
                     | Inr fileContent \<Rightarrow>
                         (case analyzeFileContent fileContent (extname name) of
                            Inl e \<Rightarrow> []
                          | Inr analysis \<Rightarrow> formatAnalysis analysis (repeat ''  '' level)))
               else []))"

definition readable :: "string list \<Rightarrow> (string \<Rightarrow> fsnode option) \<Rightarrow> string \<Rightarrow> bool" where
  "readable ignorePatterns child name =
     (case child name of
        None \<Rightarrow> False
      | Some node \<Rightarrow>
          (case isIgnored name ignorePatterns of
             Inl e \<Rightarrow> False
           | Inr ignored \<Rightarrow>
               if ignored then True
               else if isDirectory node then True
               else if extname name \<in> set recognized
                 then (case readFile node of Inl e \<Rightarrow> False | Inr fileContent \<Rightarrow> True)
                 else True))"

text \<open>
  A source is \<open>supported\<close> when no backslash stands before a letter or digit and no
  parenthesis before a question mark; it is \<open>escaped\<close> when a dot follows every backslash.
\<close>

definition unsupported_pair :: "char \<Rightarrow> char \<Rightarrow> bool" where
  "unsupported_pair x y \<longleftrightarrow> (x = CHR 0x5C \<and> isAlnum y) \<or> (x = CHR ''('' \<and> y = CHR ''?'')"

fun supported :: "string \<Rightarrow> bool" where
  "supported (x # y # zs) = (\<not> unsupported_pair x y \<and> supported (y # zs))"
| "supported s = True"

fun escaped :: "string \<Rightarrow> bool" where
  "escaped [] = True"
| "escaped (x # xs) = ((x = CHR 0x5C \<longrightarrow> xs \<noteq> [] \<and> hd xs = CHR ''.'') \<and> escaped xs)"

subsection \<open>Example inputs\<close>


text \<open>A directory in which \<open>a.ts\<close> cannot be read, and one in which \<open>b.txt\<close> has no \<open>stat\<close>.\<close>

definition unreadable_file_child :: "string \<Rightarrow> fsnode option" where
  "unreadable_file_child name =
     (if name = ''a.ts'' then Some (File (Inl IOError))
      else if name = ''b.txt'' then Some (File (Inr []))
      else None)"

definition unreadable_file_dir :: fsnode where
  "unreadable_file_dir = Dir (Inr [''b.txt'', ''a.ts'']) unreadable_file_child"

definition vanished_entry_child :: "string \<Rightarrow> fsnode option" where
  "vanished_entry_child name =
     (if name = ''a.txt'' then Some (File (Inr []))
      else if name = ''c.txt'' then Some (File (Inr []))
      else None)"

definition vanished_entry_dir :: fsnode where
  "vanished_entry_dir = Dir (Inr [''c.txt'', ''b.txt'', ''a.txt'']) vanished_entry_child"

text \<open>
  A directory in which \<open>b.ts\<close> cannot be read, and the directory above it, in which it
  is \<open>sub\<close>.
\<close>

definition broken_read_child :: "string \<Rightarrow> fsnode option" where
  "broken_read_child name =
     (if name = ''a.txt'' then Some (File (Inr []))
      else if name = ''b.ts'' then Some (File (Inl IOError))
      else if name = ''c.txt'' then Some (File (Inr []))
      else None)"

definition outer_child :: "string \<Rightarrow> fsnode option" where
  "outer_child name =
     (if name = ''a.md'' then Some (File (Inr []))
      else if name = ''sub'' then Some (Dir (Inr [''c.txt'', ''b.ts'', ''a.txt'']) broken_read_child)
      else if name = ''z.txt'' then Some (File (Inr []))
      else None)"

text \<open>A root whose listing fails, and a host in which every write succeeds.\<close>

definition unreadable_root :: fsnode where
  "unreadable_root = Dir (Inl IOError) (\<lambda>name. None)"

definition plain_host :: "fsnode \<Rightarrow> host" where
  "plain_host root =
     \<lparr>workspaceFolders = [root], outputPath = None, structureFileName = None,
      JSON_parse = (\<lambda>source. Inl SyntaxError), mkdir_ok = True, writeFile_ok = True,
      show_ok = True\<rparr>"

text \<open>One tree, enumerated in the order \<open>files\<close>.\<close>

definition reordered_dir :: "string list \<Rightarrow> fsnode" where
  "reordered_dir files =
     Dir (Inr files)
         (\<lambda>name. if name = ''a''
                  then Some (Dir (Inr [''y.py'', ''x.py'']) (\<lambda>sub. Some (File (Inr ''def f():''))))
                  else Some (File (Inr [])))"

text \<open>Sources in which every declaration occurs twice.\<close>

definition ts_twice :: string where
  "ts_twice =
     ''import x from '' @ [CHR 0x22] @ ''y'' @ [CHR 0x22] @ newline
     @ ''import x from '' @ [CHR 0x22] @ ''y'' @ [CHR 0x22] @ newline
     @ ''export const App = () => {}'' @ newline
     @ ''export const App = () => {}'' @ newline
     @ ''class A { run() {} }'' @ newline
     @ ''class A { run() {} }''"

definition py_twice :: string where
  "py_twice =
     ''import os'' @ newline @ ''import sys'' @ newline @ ''import os'' @ newline
     @ ''class A:'' @ newline @ ''    def m(self):'' @ newline
     @ ''class A:'' @ newline @ ''    def m(self):'' @ newline
     @ ''def f():'' @ newline @ ''def g():'' @ newline @ ''def f():''"

section \<open>The matcher\<close>

lemma star_elim:
  assumes "(q, c') \<in> set (run ml s (Star g r) p c)"
  shows "(q, c') = (p, c) \<or>
         (\<exists>q1 c1. (q1, c1) \<in> set (run ml s r p (clear (groups r) c)) \<and> p < q1 \<and> q1 \<le> length s
                   \<and> (q, c') \<in> set (run ml s (Star g r) q1 c1))"
proof (cases "(q, c') = (p, c)")
  case True
  then show ?thesis by simp
next
  case False
  have "(q, c') \<in> set (concat (map (\<lambda>(q, c'). if p < q \<and> q \<le> length s
                                        then run ml s (Star g r) q c' else [])
                       (run ml s r p (clear (groups r) c))))"
    using assms False unfolding run.simps(9)[of ml s g r p c] Let_def
    by (auto simp del: run.simps split: if_splits)
  then show ?thesis by (auto simp del: run.simps split: if_splits)
qed

lemma run_preserves:
  "(q, c') \<in> set (run ml s r p c) \<Longrightarrow> i \<notin> set (groups r) \<Longrightarrow> c' i = c i"
proof (induction ml s r p c arbitrary: q c' rule: run.induct)
  case (7 ml s a b p c)
  then obtain q1 c1 where a: "(q1, c1) \<in> set (run ml s a p c)"
    and b: "(q, c') \<in> set (run ml s b q1 c1)"
    by auto
  from 7(1)[OF a] 7(2)[OF a _ b] 7(4) show ?case by auto
next
  case (8 ml s a b p c)
  from 8(3) have "(q, c') \<in> set (run ml s a p c) \<or> (q, c') \<in> set (run ml s b p c)" by auto
  then show ?case using 8(1) 8(2) 8(4) by auto
next
  case (9 ml s g r p c)
  from star_elim[OF 9(3)] show ?case
  proof
    assume "(q, c') = (p, c)"
    then show ?thesis by simp
  next
    assume "\<exists>q1 c1. (q1, c1) \<in> set (run ml s r p (clear (groups r) c)) \<and> p < q1 \<and> q1 \<le> length s
                   \<and> (q, c') \<in> set (run ml s (Star g r) q1 c1)"
    then obtain q1 c1 where a: "(q1, c1) \<in> set (run ml s r p (clear (groups r) c))"
      and g: "p < q1" "q1 \<le> length s" and b: "(q, c') \<in> set (run ml s (Star g r) q1 c1)"
      by blast
    from 9(4) have ni: "i \<notin> set (groups r)" by simp
    from 9(1)[OF a ni] have "c1 i = c i" using ni by (simp add: clear_def)
    moreover from 9(2)[OF a _ _ b 9(4)] g have "c' i = c1 i" by auto
    ultimately show ?thesis by simp
  qed
next
  case (10 ml s g r p c)
  from 10(2) have "(q, c') = (p, c) \<or> (q, c') \<in> set (run ml s r p (clear (groups r) c))"
    by (auto simp: Let_def split: if_splits)
  then show ?case
  proof
    assume "(q, c') = (p, c)"
    then show ?thesis by simp
  next
    assume a: "(q, c') \<in> set (run ml s r p (clear (groups r) c))"
    from 10(3) have ni: "i \<notin> set (groups r)" by simp
    from 10(1)[OF a ni] ni show ?thesis by (simp add: clear_def)
  qed
qed (auto split: if_splits)

lemma run_defines:
  "(q, c') \<in> set (run ml s r p c) \<Longrightarrow> always_sets i r \<Longrightarrow> c' i \<noteq> None"
proof (induction ml s r p c arbitrary: q c' rule: run.induct)
  case (7 ml s a b p c)
  then obtain q1 c1 where a: "(q1, c1) \<in> set (run ml s a p c)"
    and b: "(q, c') \<in> set (run ml s b q1 c1)"
    by auto
  from 7(4) have "always_sets i b \<or> (always_sets i a \<and> i \<notin> set (groups b))" by simp
  then show ?case
  proof
    assume "always_sets i b"
    from 7(2)[OF a _ b this] show ?thesis by simp
  next
    assume d: "always_sets i a \<and> i \<notin> set (groups b)"
    with 7(1)[OF a] have "c1 i \<noteq> None" by simp
    with run_preserves[OF b, of i] d show ?thesis by simp
  qed
next
  case (8 ml s a b p c)
  from 8(3) have "(q, c') \<in> set (run ml s a p c) \<or> (q, c') \<in> set (run ml s b p c)" by auto
  then show ?case using 8(1) 8(2) 8(4) by auto
qed (auto simp del: run.simps(9) run.simps(10) split: if_splits)

lemma isWhiteSpace_iff: "isWhiteSpace ch \<longleftrightarrow> ch \<in> set white_space"
  by (auto simp: isWhiteSpace_def white_space_def)

lemma run_blank:
  "\<forall>ch \<in> set s. isWhiteSpace ch \<Longrightarrow> needs_ink r \<Longrightarrow> run ml s r p c = []"
proof (induction ml s r p c rule: run.induct)
  case (4 ml s neg items p c)
  show ?case
  proof (cases "p < length s")
    case True
    with 4(1) have "s ! p \<in> set white_space" by (simp add: isWhiteSpace_iff)
    with 4(2) have "list_ex (\<lambda>i. item_matches i (s ! p)) items = neg"
      by (simp add: list_all_iff)
    then show ?thesis by simp
  next
    case False
    then show ?thesis by simp
  qed
next
  case (7 ml s a b p c)
  from 7(4) have "needs_ink a \<or> needs_ink b" by simp
  then show ?case
  proof
    assume "needs_ink a"
    with 7(1)[OF 7(3)] show ?thesis by simp
  next
    assume nb: "needs_ink b"
    have "\<And>q c'. (q, c') \<in> set (run ml s a p c) \<Longrightarrow> run ml s b q c' = []"
      using 7(2)[OF _ _ 7(3) nb] by simp
    then show ?thesis by auto
  qed
qed (auto simp del: run.simps(9) run.simps(10))

lemma search_blank: "blank s \<Longrightarrow> needs_ink r \<Longrightarrow> search ml r s i = None"
proof (induction ml r s i rule: search.induct)
  case (1 ml r s i)
  from 1(2) have "\<forall>ch \<in> set s. isWhiteSpace ch" by (simp add: blank_def list_all_iff)
  from run_blank[OF this 1(3)] have r: "run ml s r i (\<lambda>_. None) = []" .
  show ?case
  proof (cases "length s < i")
    case True
    then show ?thesis by (simp add: search.simps[of ml r s i])
  next
    case False
    from 1(1)[OF False r 1(2) 1(3)] r False show ?thesis by (simp add: search.simps[of ml r s i])
  qed
qed

lemma matchAll_blank: "blank s \<Longrightarrow> needs_ink r \<Longrightarrow> matchAll ml r s = []"
  by (simp add: matchAll_def match_all.simps[of ml r s 0] search_blank)

lemma needs_ink_regexes:
  "needs_ink js_importRegex" "needs_ink js_functionRegex" "needs_ink js_classRegex"
  "needs_ink js_methodRegex" "needs_ink js_exportRegex" "needs_ink reactComponentRegex"
  "needs_ink py_importRegex" "needs_ink py_functionRegex" "needs_ink py_classRegex"
  "needs_ink py_methodRegex"
  by (simp_all add: js_importRegex_def js_functionRegex_def js_classRegex_def js_methodRegex_def
        js_exportRegex_def reactComponentRegex_def py_importRegex_def py_functionRegex_def
        py_classRegex_def py_methodRegex_def isWhiteSpace_def sp_def osp_def Plus_def ws_def
        nws_def js_ident_def py_ident_def white_space_def eval_nat_numeral)

lemma py_import_exec_blank: "blank s \<Longrightarrow> py_import_exec s 0 = []"
  by (simp add: py_import_exec.simps[of s 0] search_blank needs_ink_regexes)

lemma analyzeFileContent_blank: "blank content \<Longrightarrow> analyzeFileContent content ext = Inr no_analysis"
  by (simp add: analyzeFileContent_def matchAll_blank needs_ink_regexes py_import_exec_blank
        js_methods_def no_analysis_def new_Set_def)

lemma always_sets_py_import: "always_sets 2 py_importRegex"
  by (simp add: py_importRegex_def sp_def osp_def Plus_def ws_def nws_def)

lemma py_import_exec_group:
  "m \<in> set (py_import_exec content i) \<Longrightarrow> group content m 2 \<noteq> None"
proof (induction content i rule: py_import_exec.induct)
  case (1 content lastIndex)
  show ?case
  proof (cases "search True py_importRegex content lastIndex")
    case None
    with 1(2) show ?thesis by (simp add: py_import_exec.simps[of content lastIndex])
  next
    case (Some x)
    obtain b e c where x: "x = (b, e, c)" by (cases x)
    from 1(2) Some x have "m = (b, e, c) \<or> m \<in> set (py_import_exec content e)"
      by (simp add: py_import_exec.simps[of content lastIndex])
    then show ?thesis
    proof
      assume m: "m = (b, e, c)"
      from run_defines[OF search_run[OF Some[unfolded x]] always_sets_py_import]
      show ?thesis by (auto simp: m group_def)
    next
      assume "m \<in> set (py_import_exec content e)"
      from 1(1)[OF Some[unfolded x] refl refl this] show ?thesis .
    qed
  qed
qed

lemma py_imports_total:
  "\<forall>m \<in> set ms. group content m 2 \<noteq> None \<Longrightarrow> \<exists>imps. py_imports content ms = Inr imps"
proof (induction ms)
  case Nil
  then show ?case by simp
next
  case (Cons m ms)
  then obtain rest where r: "py_imports content ms = Inr rest" by auto
  from Cons(2) obtain names where "group content m 2 = Some names" by auto
  then have "\<exists>entries. py_import_entries content m = Inr entries"
    by (simp add: py_import_entries_def Let_def)
  with r show ?case by auto
qed

lemma analyzeFileContent_total: "\<exists>analysis. analyzeFileContent content ext = Inr analysis"
proof -
  from py_imports_total[of "py_import_exec content 0" content] py_import_exec_group
  obtain imps where "py_imports content (py_import_exec content 0) = Inr imps" by blast
  then show ?thesis by (simp add: analyzeFileContent_def)
qed

section \<open>The order of enumeration\<close>

lemma same_tree_refl: "same_tree t t"
proof (induction t)
  case (File c)
  show ?case by (rule same_file)
next
  case (Dir listing child)
  have ch: "\<And>name. (child name = None \<and> child name = None) \<or>
        (\<exists>n n'. child name = Some n \<and> child name = Some n' \<and> same_tree n n')"
  proof -
    fix name
    show "(child name = None \<and> child name = None) \<or>
        (\<exists>n n'. child name = Some n \<and> child name = Some n' \<and> same_tree n n')"
    proof (cases "child name")
      case None
      then show ?thesis by simp
    next
      case (Some n)
      have "child name \<in> range child" by simp
      moreover from Some have "n \<in> set_option (child name)" by simp
      ultimately have "child name \<in> range child" "n \<in> set_option (child name)" .
      from Dir[OF this] Some show ?thesis by auto
    qed
  qed
  show ?case
  proof (cases listing)
    case (Inl e)
    show ?thesis unfolding Inl by (rule same_unlisted) (rule ch)
  next
    case (Inr files)
    show ?thesis unfolding Inr by (rule same_listed) (simp, rule ch)
  qed
qed

lemma same_tree_readFile: "same_tree t t' \<Longrightarrow> readFile t = readFile t'"
  by (induction rule: same_tree.induct) (simp_all add: readFile_def)

lemma same_tree_isDirectory: "same_tree t t' \<Longrightarrow> isDirectory t = isDirectory t'"
  by (induction rule: same_tree.induct) (simp_all add: isDirectory_def)

lemma same_tree_join:
  "same_tree t t' \<Longrightarrow>
     (join t name = None \<and> join t' name = None) \<or>
     (\<exists>n n'. join t name = Some n \<and> join t' name = Some n' \<and> same_tree n n')"
  by (induction rule: same_tree.induct) (auto simp: join_def)

lemma scan_entry_cong:
  assumes "(stats = None \<and> stats' = None) \<or>
           (\<exists>n n' sub. stats = Some (n, sub) \<and> stats' = Some (n', sub) \<and>
                        readFile n = readFile n' \<and> isDirectory n = isDirectory n')"
  shows "scan_entry pats indent name stats content = scan_entry pats indent name stats' content"
  using assms
proof
  assume "stats = None \<and> stats' = None"
  then show ?thesis by simp
next
  assume "\<exists>n n' sub. stats = Some (n, sub) \<and> stats' = Some (n', sub) \<and>
                        readFile n = readFile n' \<and> isDirectory n = isDirectory n'"
  then obtain n n' sub where a: "stats = Some (n, sub)" and b: "stats' = Some (n', sub)"
    and rf: "readFile n = readFile n'" and isd: "isDirectory n = isDirectory n'" by blast
  show ?thesis unfolding scan_entry_def a b option.case prod.case rf isd by (rule refl)
qed

lemma sort_mset_eq: "mset xs = mset ys \<Longrightarrow> sort xs = sort ys"
  by (rule properties_for_sort) simp_all

lemma same_tree_scan:
  "same_tree t t' \<Longrightarrow> scanDirectory t pats level = scanDirectory t' pats level"
proof (induction arbitrary: level rule: same_tree.induct)
  case (same_file c)
  show ?case by simp
next
  case (same_unlisted child child' e)
  show ?case by simp
next
  case (same_listed files files' child child')
  let ?stats = "\<lambda>ch name. map_option (\<lambda>fullPath. (fullPath, scanDirectory fullPath pats (level + 1)))
                                  (ch name)"
  have "\<And>name content.
     scan_entry pats (repeat ''  '' level) name (?stats child name) content
     = scan_entry pats (repeat ''  '' level) name (?stats child' name) content"
  proof -
    fix name content
    from same_listed(2)[of name]
    show "scan_entry pats (repeat ''  '' level) name (?stats child name) content
        = scan_entry pats (repeat ''  '' level) name (?stats child' name) content"
      by (intro scan_entry_cong) (auto dest: same_tree_readFile same_tree_isDirectory)
  qed
  then have "(\<lambda>name. scan_entry pats (repeat ''  '' level) name (?stats child name))
           = (\<lambda>name. scan_entry pats (repeat ''  '' level) name (?stats child' name))"
    by (intro ext)
  with sort_mset_eq[OF same_listed(1)] show ?case by simp
qed

lemma same_tree_load: "same_tree t t' \<Longrightarrow> loadGitignorePatterns t = loadGitignorePatterns t'"
  using same_tree_join[of t t' "''.gitignore''"]
  by (auto simp: loadGitignorePatterns_def dest: same_tree_readFile)

lemma same_tree_projectInfo: "same_tree t t' \<Longrightarrow> projectInfo jp t = projectInfo jp t'"
  using same_tree_join[of t t' "''package.json''"]
  by (auto simp: projectInfo_def dest: same_tree_readFile)

lemma same_tree_configSection: "same_tree t t' \<Longrightarrow> configSection t f = configSection t' f"
  using same_tree_join[of t t' f]
  by (auto simp: configSection_def dest: same_tree_readFile)

lemma same_tree_analyzeWorkspace:
  "same_tree t t' \<Longrightarrow> analyzeWorkspace jp t = analyzeWorkspace jp t'"
  by (simp add: analyzeWorkspace_def same_tree_load same_tree_projectInfo
        same_tree_configSection same_tree_scan)

lemma scan_entry_appends:
  "scan_entry pats indent file stats content =
     (case scan_entry pats indent file stats [] of
        Continue text \<Rightarrow> Continue (content @ text)
      | Caught text \<Rightarrow> Caught (content @ text))"
  by (auto simp: scan_entry_def Let_def split: option.splits sum.splits)

lemma scan_loop_prefix:
  assumes "\<And>f content. body f content =
             (case body f [] of Continue text \<Rightarrow> Continue (content @ text)
                                 | Caught text \<Rightarrow> Caught (content @ text))"
  shows "\<exists>k. scan_loop body files content =
           content @ concat (map (\<lambda>file. case body file [] of Continue t \<Rightarrow> t | Caught t \<Rightarrow> t)
                                 (take k files))"
proof (induction files arbitrary: content)
  case Nil
  then show ?case by simp
next
  case (Cons f files)
  show ?case
  proof (cases "body f []")
    case (Continue tx)
    with assms[of f content] have b: "body f content = Continue (content @ tx)" by simp
    from Cons[of "content @ tx"] obtain k where
      "scan_loop body files (content @ tx) =
         (content @ tx) @ concat (map (\<lambda>file. case body file [] of Continue t \<Rightarrow> t | Caught t \<Rightarrow> t)
                                 (take k files))" by blast
    with b Continue show ?thesis by (intro exI[of _ "Suc k"]) simp
  next
    case (Caught tx)
    with assms[of f content] have b: "body f content = Caught (content @ tx)" by simp
    with Caught show ?thesis by (intro exI[of _ "Suc 0"]) simp
  qed
qed

lemma scanDirectory_sorted_prefix:
  "\<exists>k. scanDirectory (Dir (Inr files) child) pats level =
     concat (map (\<lambda>file. entry_text pats (repeat ''  '' level) file
                     (map_option (\<lambda>fullPath. (fullPath, scanDirectory fullPath pats (level + 1)))
                        (child file)))
                 (take k (sort files)))"
proof -
  let ?body = "\<lambda>file. scan_entry pats (repeat ''  '' level) file
                       (map_option (\<lambda>fullPath. (fullPath, scanDirectory fullPath pats (level + 1)))
                          (child file))"
  have "\<And>f content. ?body f content =
             (case ?body f [] of Continue text \<Rightarrow> Continue (content @ text)
                                 | Caught text \<Rightarrow> Caught (content @ text))"
    by (rule scan_entry_appends)
  from scan_loop_prefix[of ?body "sort files" "[]", OF this]
  show ?thesis by (simp add: entry_text_def)
qed

section \<open>Loops, sets and lists\<close>

lemma some_append:
  "some f ys = Inr True \<Longrightarrow>
     some f (xs @ ys) = Inr True \<or> (\<exists>e x. x \<in> set xs \<and> f x = Inl e \<and> some f (xs @ ys) = Inl e)"
proof (induction xs)
  case Nil
  then show ?case by simp
next
  case (Cons x xs)
  show ?case
  proof (cases "f x")
    case (Inl e)
    then show ?thesis by auto
  next
    case (Inr b)
    with Cons show ?thesis by (cases b) auto
  qed
qed

lemma loadGitignorePatterns_shape:
  "\<exists>custom. loadGitignorePatterns rootPath = custom @ defaultPatterns"
  by (auto simp: loadGitignorePatterns_def split: option.splits sum.splits intro: exI[of _ "[''.*'']"])

lemma scan_entry_readable:
  assumes "readable ignorePatterns child name"
  shows "scan_entry ignorePatterns (repeat ''  '' level) name
           (map_option (\<lambda>fullPath. (fullPath, scanDirectory fullPath ignorePatterns (level + 1)))
              (child name)) content
         = Continue (content @ entry_block ignorePatterns level child name)"
proof -
  from assms obtain node ignored where n: "child name = Some node"
    and i: "isIgnored name ignorePatterns = Inr ignored"
    by (auto simp: readable_def split: option.splits sum.splits)
  show ?thesis
  proof (cases "ignored \<or> isDirectory node \<or> extname name \<notin> set recognized")
    case True
    with n i show ?thesis
      by (auto simp: scan_entry_def entry_block_def recognized_def Let_def)
  next
    case False
    with assms n i obtain fileContent where r: "readFile node = Inr fileContent"
      by (auto simp: readable_def split: sum.splits)
    obtain analysis where a: "analyzeFileContent fileContent (extname name) = Inr analysis"
      using analyzeFileContent_total by blast
    from False n i r a show ?thesis
      by (simp add: scan_entry_def entry_block_def recognized_def Let_def)
  qed
qed

lemma scan_loop_readable:
  assumes "\<And>name content. name \<in> set before \<Longrightarrow> body name content = Continue (content @ block name)"
  shows "scan_loop body (before @ rest) content
         = scan_loop body rest (content @ concat (map block before))"
  using assms
proof (induction before arbitrary: content)
  case Nil
  then show ?case by simp
next
  case (Cons x before)
  then show ?case by simp
qed

lemma remdups_skip: "x \<in> set ys \<Longrightarrow> remdups (xs @ x # ys) = remdups (xs @ ys)"
  by (induction xs) auto

lemma foldl_set_add:
  "distinct acc \<Longrightarrow> foldl set_add acc xs = rev (remdups (rev (acc @ xs)))"
proof (induction xs arbitrary: acc)
  case Nil
  then show ?case by (simp add: distinct_remdups_id)
next
  case (Cons x xs)
  show ?case
  proof (cases "x \<in> set acc")
    case True
    then have "remdups (rev xs @ x # rev acc) = remdups (rev xs @ rev acc)"
      by (intro remdups_skip) simp
    with Cons True show ?thesis by (simp add: set_add_def)
  next
    case False
    with Cons(2) have "distinct (acc @ [x])" by simp
    from Cons(1)[OF this] False show ?thesis by (simp add: set_add_def)
  qed
qed

lemma new_Set_first_seen: "new_Set xs = rev (remdups (rev xs))"
  using foldl_set_add[of "[]" xs] by (simp add: new_Set_def)

lemma distinct_new_Set: "distinct (new_Set xs)"
  by (simp add: new_Set_first_seen)

lemma reordered_same: "same_tree (reordered_dir [''b.txt'', ''a'']) (reordered_dir [''a'', ''b.txt''])"
  unfolding reordered_dir_def
proof (rule same_listed)
  show "mset [''b.txt'', ''a''] = mset [''a'', ''b.txt'']" by simp
next
  fix name
  let ?child = "\<lambda>name. if name = ''a''
           then Some (Dir (Inr [''y.py'', ''x.py'']) (\<lambda>sub. Some (File (Inr ''def f():''))))
           else Some (File (Inr []))"
  show "?child name = None \<and> ?child name = None \<or>
        (\<exists>n n'. ?child name = Some n \<and> ?child name = Some n' \<and> same_tree n n')"
    by (auto intro: same_tree_refl)
qed

section \<open>The sources that isIgnored builds\<close>

text \<open>
  The constructor never meets the syntax outside the model on a source of \<open>isIgnored\<close>:
  the translation leaves a backslash before a dot only, and no question mark but those of
  the four anchor forms.
\<close>

lemma supported_tl: "supported (x # xs) \<Longrightarrow> supported xs"
  by (cases xs) auto

lemma supported_drop: "supported s \<Longrightarrow> supported (drop n s)"
proof (induction n arbitrary: s)
  case 0
  then show ?case by simp
next
  case (Suc n)
  then show ?case by (cases s) (auto dest: supported_tl)
qed

lemma supported_dropWhile: "supported s \<Longrightarrow> supported (dropWhile P s)"
  by (induction s) (auto dest: supported_tl)

lemma class_atom_supported:
  "supported s \<Longrightarrow> class_atom s \<noteq> Inl UnsupportedSyntax \<and>
     (\<forall>a r. class_atom s = Inr (a, r) \<longrightarrow> supported r)"
proof (cases s)
  case Nil
  then show ?thesis by simp
next
  case (Cons x xs)
  assume s: "supported s"
  show ?thesis
  proof (cases xs)
    case Nil
    with Cons show ?thesis by simp
  next
    case (Cons y ys)
    with s \<open>s = x # xs\<close> have "\<not> unsupported_pair x y" "supported (y # ys)" by auto
    with Cons \<open>s = x # xs\<close> show ?thesis
      by (auto simp: unsupported_pair_def dest: supported_tl)
  qed
qed

lemma class_ranges_supported:
  "supported s \<Longrightarrow> class_ranges s \<noteq> Inl UnsupportedSyntax \<and>
     (\<forall>items r. class_ranges s = Inr (items, r) \<longrightarrow> supported r)"
proof (induction s rule: class_ranges.induct)
  case 1
  then show ?case by simp
next
  case (2 x xs)
  show ?case
  proof (cases "x = CHR '']''")
    case True
    with 2(3) show ?thesis by (auto dest: supported_tl)
  next
    case False
    note nx = False
    from class_atom_supported[OF 2(3)]
    have ca: "class_atom (x # xs) \<noteq> Inl UnsupportedSyntax"
      and cr: "\<And>a r. class_atom (x # xs) = Inr (a, r) \<Longrightarrow> supported r" by blast+
    show ?thesis
    proof (cases "class_atom (x # xs)")
      case (Inl e)
      with ca nx show ?thesis by (simp del: class_atom.simps)
    next
      case (Inr ar)
      obtain a r1 where ar: "ar = (a, r1)" by (cases ar)
      from cr[OF Inr[unfolded ar]] have s1: "supported r1" .
      show ?thesis
      proof (cases "2 \<le> length r1 \<and> hd r1 = CHR ''-'' \<and> r1 ! 1 \<noteq> CHR '']''")
        case True
        have st: "supported (tl r1)" using s1 supported_drop[of r1 1] by (simp add: drop_Suc)
        from class_atom_supported[OF st]
        have ca2: "class_atom (tl r1) \<noteq> Inl UnsupportedSyntax"
          and cr2: "\<And>b r. class_atom (tl r1) = Inr (b, r) \<Longrightarrow> supported r" by blast+
        show ?thesis
        proof (cases "class_atom (tl r1)")
          case (Inl e)
          with ca2 nx Inr ar True show ?thesis by (simp del: class_atom.simps)
        next
          case Inr2: (Inr br)
          obtain b r3 where br: "br = (b, r3)" by (cases br)
          from cr2[OF Inr2[unfolded br]] have s3: "supported r3" .
          show ?thesis
          proof (cases "b < a")
            case True
            with nx Inr ar \<open>2 \<le> length r1 \<and> hd r1 = CHR ''-'' \<and> r1 ! 1 \<noteq> CHR '']''\<close> Inr2 br
            show ?thesis by (simp del: class_atom.simps)
          next
            case False
            from 2(1)[OF nx Inr ar[symmetric] True Inr2 br[symmetric] False s3]
            have "class_ranges r3 \<noteq> Inl UnsupportedSyntax \<and>
                  (\<forall>items r. class_ranges r3 = Inr (items, r) \<longrightarrow> supported r)" .
            with nx Inr ar True Inr2 br False show ?thesis
              by (auto simp del: class_atom.simps split: sum.splits)
          qed
        qed
      next
        case False
        from 2(2)[OF nx Inr ar[symmetric] False s1]
        have "class_ranges r1 \<noteq> Inl UnsupportedSyntax \<and>
                  (\<forall>items r. class_ranges r1 = Inr (items, r) \<longrightarrow> supported r)" .
        with nx Inr ar False show ?thesis
          by (auto simp del: class_atom.simps split: sum.splits)
      qed
    qed
  qed
qed

lemma braced_supported: "supported s \<Longrightarrow> braced s = Some (q, rest) \<Longrightarrow> supported rest"
proof -
  assume s: "supported s" and a: "braced s = Some (q, rest)"
  from a obtain y t where r: "dropWhile isDigit s = y # t"
    by (auto simp: braced_def Let_def split: if_splits list.splits)
  from supported_dropWhile[OF s, of isDigit] r have st: "supported t" by (auto dest: supported_tl)
  show ?thesis
  proof (cases "y = CHR ''}''")
    case True
    with a r have "rest = t" by (auto simp: braced_def Let_def split: if_splits)
    with st show ?thesis by simp
  next
    case False
    with a r obtain z where "dropWhile isDigit t = z # rest"
      by (auto simp: braced_def Let_def split: if_splits list.splits)
    with supported_dropWhile[OF st, of isDigit] show ?thesis by (auto dest: supported_tl)
  qed
qed

lemma quantifier_supported:
  "supported s \<Longrightarrow> quantifier lo hi s \<noteq> Inl UnsupportedSyntax \<and>
     (\<forall>t rest. quantifier lo hi s = Inr (t, rest) \<longrightarrow> supported rest)"
  by (auto simp: quantifier_def lazy_suffix_def split: list.splits if_splits dest: supported_tl)

lemma next_token_supported:
  assumes "supported (x # xs)"
  shows "next_token x xs \<noteq> Inl UnsupportedSyntax \<and>
         (\<forall>t rest. next_token x xs = Inr (t, rest) \<longrightarrow> supported rest)"
proof -
  have sx: "supported xs" using assms by (rule supported_tl)
  have pair: "\<And>y ys. xs = y # ys \<Longrightarrow> \<not> unsupported_pair x y" using assms by auto
  have q: "\<And>lo hi s. supported s \<Longrightarrow> quantifier lo hi s \<noteq> Inl UnsupportedSyntax \<and>
     (\<forall>t rest. quantifier lo hi s = Inr (t, rest) \<longrightarrow> supported rest)"
    by (rule quantifier_supported)
  consider (bs) "x = CHR 0x5C" | (br) "x = CHR ''[''" | (op) "x = CHR ''(''" | (brace) "x = CHR ''{''"
    | (other) "x \<noteq> CHR 0x5C" "x \<noteq> CHR ''[''" "x \<noteq> CHR ''(''" "x \<noteq> CHR ''{''" by blast
  then show ?thesis
  proof cases
    case bs
    show ?thesis
    proof (cases xs)
      case Nil
      with bs show ?thesis by (simp add: next_token_def)
    next
      case (Cons y ys)
      from pair[OF Cons] bs have "\<not> isAlnum y" by (simp add: unsupported_pair_def)
      with bs Cons sx show ?thesis by (auto simp: next_token_def dest: supported_tl)
    qed
  next
    case br
    show ?thesis
    proof (cases xs)
      case Nil
      with br show ?thesis by (simp add: next_token_def)
    next
      case (Cons y ys)
      have "supported (if y = CHR ''^'' then ys else xs)" using sx Cons by (auto dest: supported_tl)
      from class_ranges_supported[OF this] br Cons show ?thesis
        by (auto simp: next_token_def simp del: class_ranges.simps split: sum.splits)
    qed
  next
    case op
    show ?thesis
    proof (cases xs)
      case Nil
      with op show ?thesis by (simp add: next_token_def)
    next
      case (Cons y ys)
      from pair[OF Cons] op have "y \<noteq> CHR ''?''" by (simp add: unsupported_pair_def)
      with op Cons sx show ?thesis by (auto simp: next_token_def)
    qed
  next
    case brace
    show ?thesis
    proof (cases "braced xs")
      case None
      with brace sx show ?thesis by (simp add: next_token_def)
    next
      case (Some qr)
      obtain lo hi rest where qr: "qr = ((lo, hi), rest)" by (cases qr) auto
      from braced_supported[OF sx Some[unfolded qr]] have "supported rest" .
      from q[OF this] brace Some qr show ?thesis
        by (auto simp: next_token_def split: option.splits)
    qed
  next
    case other
    with sx q[OF sx] show ?thesis by (auto simp: next_token_def)
  qed
qed

lemma lex_supported: "supported s \<Longrightarrow> lex s \<noteq> Inl UnsupportedSyntax"
proof (induction s rule: lex.induct)
  case 1
  then show ?case by simp
next
  case (2 x xs)
  from next_token_supported[OF 2(2)]
  have nt: "next_token x xs \<noteq> Inl UnsupportedSyntax"
    and nr: "\<And>t rest. next_token x xs = Inr (t, rest) \<Longrightarrow> supported rest" by blast+
  show ?case
  proof (cases "next_token x xs")
    case (Inl e)
    with nt show ?thesis by simp
  next
    case (Inr tr)
    obtain t rest where tr: "tr = (t, rest)" by (cases tr)
    from 2(1)[OF Inr tr[symmetric] nr[OF Inr[unfolded tr]]] Inr tr show ?thesis
      by (auto split: sum.splits)
  qed
qed

lemma parse_supported: "parse ts st n \<noteq> Inl UnsupportedSyntax"
  by (induction ts st n rule: parse.induct) (auto split: list.splits)

lemma RegExp_supported: "supported source \<Longrightarrow> RegExp source \<noteq> Inl UnsupportedSyntax"
  using lex_supported[of source] by (auto simp: RegExp_def parse_supported split: sum.splits)

lemma replaceAll_removes: "c \<notin> set rep \<Longrightarrow> c \<notin> set (replaceAll [c] rep s)"
  by (induction "[c]" rep s rule: replaceAll.induct) auto

lemma normalizePattern_no_backslash: "CHR 0x5C \<notin> set (normalizePattern pattern)"
proof -
  have "CHR 0x5C \<notin> set (replaceAll [CHR 0x5C] ''/'' (trim pattern))"
    by (rule replaceAll_removes) simp
  then show ?thesis
    by (auto simp: normalizePattern_def Let_def dest: in_set_dropD in_set_takeD)
qed

lemma escaped_drop: "escaped s \<Longrightarrow> escaped (drop n s)"
proof (induction n arbitrary: s)
  case 0
  then show ?case by simp
next
  case (Suc n)
  then show ?case by (cases s) auto
qed

lemma escaped_plain_append: "CHR 0x5C \<notin> set a \<Longrightarrow> escaped b \<Longrightarrow> escaped (a @ b)"
  by (induction a) auto

lemma escape_dots: "CHR 0x5C \<notin> set s \<Longrightarrow> escaped (replaceAll ''.'' [CHR 0x5C, CHR ''.''] s)"
  by (induction "''.''" "[CHR 0x5C, CHR ''.'']" s rule: replaceAll.induct) auto

lemma replaceAll_escaped:
  "escaped s \<Longrightarrow> needle \<noteq> [] \<Longrightarrow> hd needle \<noteq> CHR ''.'' \<Longrightarrow> hd needle \<noteq> CHR 0x5C \<Longrightarrow>
     CHR 0x5C \<notin> set rep \<Longrightarrow> escaped (replaceAll needle rep s)"
proof (induction needle rep s rule: replaceAll.induct)
  case (1 needle rep)
  then show ?case by simp
next
  case (2 needle rep x xs)
  show ?case
  proof (cases "needle \<noteq> [] \<and> take (length needle) (x # xs) = needle")
    case True
    have "escaped (drop (length needle) (x # xs))" using 2(3) by (rule escaped_drop)
    from 2(1)[OF True this 2(4) 2(5) 2(6) 2(7)] True 2(7) show ?thesis
      by (simp add: escaped_plain_append)
  next
    case False
    from 2(3) have ex: "escaped xs" by simp
    from 2(2)[OF False ex 2(4) 2(5) 2(6) 2(7)] have er: "escaped (replaceAll needle rep xs)" .
    have eq: "replaceAll needle rep (x # xs) = x # replaceAll needle rep xs"
      using False by (subst replaceAll.simps) (simp only: if_False)
    show ?thesis
    proof (cases "x = CHR 0x5C")
      case True
      with 2(3) obtain ys where xs: "xs = CHR ''.'' # ys" by (cases xs) auto
      have "take (length needle) (CHR ''.'' # ys) \<noteq> needle"
        using 2(4) 2(5) by (cases needle) auto
      then have "replaceAll needle rep xs = CHR ''.'' # replaceAll needle rep ys"
        by (simp add: xs)
      with er True show ?thesis unfolding eq by simp
    next
      case F2: False
      with er show ?thesis unfolding eq by simp
    qed
  qed
qed

lemma regexPattern_shape:
  "escaped (regexPattern (normalizePattern pattern)) \<and>
   CHR ''?'' \<notin> set (regexPattern (normalizePattern pattern))"
proof
  have "escaped (replaceAll ''.'' [CHR 0x5C, CHR ''.''] (normalizePattern pattern))"
    by (rule escape_dots) (rule normalizePattern_no_backslash)
  then have "escaped (replaceAll ''**'' ''.*'' (replaceAll ''.'' [CHR 0x5C, CHR ''.''] (normalizePattern pattern)))"
    by (rule replaceAll_escaped) simp_all
  then have "escaped (replaceAll ''*'' ''[^/]*'' (replaceAll ''**'' ''.*''
                (replaceAll ''.'' [CHR 0x5C, CHR ''.''] (normalizePattern pattern))))"
    by (rule replaceAll_escaped) simp_all
  then show "escaped (regexPattern (normalizePattern pattern))"
    unfolding regexPattern_def by (rule replaceAll_escaped) simp_all
next
  show "CHR ''?'' \<notin> set (regexPattern (normalizePattern pattern))"
    unfolding regexPattern_def by (rule replaceAll_removes) simp
qed

lemma supported_Cons:
  "supported (x # xs) \<longleftrightarrow> (xs = [] \<or> \<not> unsupported_pair x (hd xs)) \<and> supported xs"
  by (cases xs) auto

lemma supported_append:
  "supported (a @ b) \<longleftrightarrow>
     supported a \<and> supported b \<and> (a = [] \<or> b = [] \<or> \<not> unsupported_pair (last a) (hd b))"
proof (induction a)
  case Nil
  then show ?case by simp
next
  case (Cons x a)
  show ?case
  proof (cases a)
    case Nil
    then show ?thesis by (cases b) auto
  next
    case (Cons y ys)
    with Cons.IH show ?thesis by auto
  qed
qed

lemma escaped_supported: "escaped s \<Longrightarrow> CHR ''?'' \<notin> set s \<Longrightarrow> supported s"
proof (induction s)
  case Nil
  then show ?case by simp
next
  case (Cons x s)
  then show ?case
    by (cases s) (auto simp: unsupported_pair_def isAlnum_def isDigit_def)
qed

lemma escaped_last: "escaped s \<Longrightarrow> s \<noteq> [] \<Longrightarrow> last s \<noteq> CHR 0x5C"
  by (induction s) (auto split: if_splits)

lemma regexSource_supported:
  assumes "escaped rp" "CHR ''?'' \<notin> set rp"
  shows "supported (regexSource rp)"
proof -
  have s: "supported rp" using assms by (rule escaped_supported)
  have l: "rp \<noteq> [] \<Longrightarrow> last rp \<noteq> CHR 0x5C" using assms(1) by (rule escaped_last)
  have h: "rp \<noteq> [] \<Longrightarrow> hd rp \<noteq> CHR ''?''" using assms(2) by (cases rp) auto
  have pre: "\<And>lit rest. supported lit \<Longrightarrow> lit \<noteq> [] \<Longrightarrow> last lit \<noteq> CHR 0x5C \<Longrightarrow> last lit \<noteq> CHR ''(''
        \<Longrightarrow> supported rest \<Longrightarrow> supported (lit @ rest)"
    by (auto simp: supported_append unsupported_pair_def)
  have post: "\<And>rest. supported rest \<Longrightarrow> rest \<noteq> [] \<Longrightarrow> \<not> isAlnum (hd rest) \<Longrightarrow> hd rest \<noteq> CHR ''?''
        \<Longrightarrow> supported (rp @ rest)"
    using s by (auto simp: supported_append unsupported_pair_def)
  have na: "\<not> isAlnum CHR ''$''" "\<not> isAlnum CHR ''/''" by (simp_all add: isAlnum_def isDigit_def)
  have 1: "supported (rp @ ''/.*$'')"
    by (rule post) (simp_all add: na unsupported_pair_def)
  have 2: "supported (''$|^.*?/'' @ rp @ ''/.*$'')"
    by (rule pre[OF _ _ _ _ 1]) (simp_all add: unsupported_pair_def)
  have 3: "supported (rp @ ''$|^.*?/'' @ rp @ ''/.*$'')"
    by (rule post[OF 2]) (simp_all add: na)
  have 4: "supported (''/|^.*?/'' @ rp @ ''$|^.*?/'' @ rp @ ''/.*$'')"
    by (rule pre[OF _ _ _ _ 3]) (simp_all add: unsupported_pair_def)
  have 5: "supported (rp @ ''/|^.*?/'' @ rp @ ''$|^.*?/'' @ rp @ ''/.*$'')"
    by (rule post[OF 4]) (simp_all add: na)
  have 6: "supported (''$|^'' @ rp @ ''/|^.*?/'' @ rp @ ''$|^.*?/'' @ rp @ ''/.*$'')"
    by (rule pre[OF _ _ _ _ 5]) (simp_all add: unsupported_pair_def)
  have 7: "supported (rp @ ''$|^'' @ rp @ ''/|^.*?/'' @ rp @ ''$|^.*?/'' @ rp @ ''/.*$'')"
    by (rule post[OF 6]) (simp_all add: na)
  have 8: "supported (''^'' @ rp @ ''$|^'' @ rp @ ''/|^.*?/'' @ rp @ ''$|^.*?/'' @ rp @ ''/.*$'')"
    by (rule pre[OF _ _ _ _ 7]) (simp_all add: unsupported_pair_def)
  have "regexSource rp = ''^'' @ rp @ ''$|^'' @ rp @ ''/|^.*?/'' @ rp @ ''$|^.*?/'' @ rp @ ''/.*$''"
    by (simp add: regexSource_def)
  with 8 show ?thesis by simp
qed

lemma patternMatches_supported: "patternMatches normalizedPath pattern \<noteq> Inl UnsupportedSyntax"
proof -
  from regexPattern_shape[of pattern]
  have "supported (regexSource (regexPattern (normalizePattern pattern)))"
    by (intro regexSource_supported) simp_all
  from RegExp_supported[OF this] show ?thesis
    by (auto simp: patternMatches_def split: sum.splits)
qed

lemma some_error: "some f xs = Inl e \<Longrightarrow> \<exists>x \<in> set xs. f x = Inl e"
proof (induction xs)
  case Nil
  then show ?case by simp
next
  case (Cons x xs)
  then show ?case by (cases "f x") (auto split: if_splits)
qed

lemma isIgnored_supported: "isIgnored filePath patterns \<noteq> Inl UnsupportedSyntax"
proof
  assume "isIgnored filePath patterns = Inl UnsupportedSyntax"
  then obtain p where "patternMatches (replaceAll [CHR 0x5C] ''/'' filePath) p = Inl UnsupportedSyntax"
    by (auto simp: isIgnored_def Let_def dest: some_error)
  with patternMatches_supported show False by blast
qed

lemma defaults_in_rule_set:
  "set defaultPatterns \<subseteq> set (loadGitignorePatterns rootPath) \<and>
   (isIgnored name defaultPatterns = Inr True \<longrightarrow>
      isIgnored name (loadGitignorePatterns rootPath) = Inr True \<or>
      (\<exists>e pattern. pattern \<in> set (loadGitignorePatterns rootPath) \<and>
           patternMatches (replaceAll [CHR 0x5C] ''/'' name) pattern = Inl e \<and>
           isIgnored name (loadGitignorePatterns rootPath) = Inl e))"
proof -
  obtain custom where l: "loadGitignorePatterns rootPath = custom @ defaultPatterns"
    using loadGitignorePatterns_shape by blast
  show ?thesis
  proof (intro conjI impI)
    show "set defaultPatterns \<subseteq> set (loadGitignorePatterns rootPath)" by (simp add: l)
  next
    assume "isIgnored name defaultPatterns = Inr True"
    then have "some (patternMatches (replaceAll [CHR 0x5C] ''/'' name)) defaultPatterns = Inr True"
      by (simp add: isIgnored_def)
    from some_append[OF this, of custom]
    show "isIgnored name (loadGitignorePatterns rootPath) = Inr True \<or>
      (\<exists>e pattern. pattern \<in> set (loadGitignorePatterns rootPath) \<and>
           patternMatches (replaceAll [CHR 0x5C] ''/'' name) pattern = Inl e \<and>
           isIgnored name (loadGitignorePatterns rootPath) = Inl e)"
      unfolding l isIgnored_def Let_def by auto
  qed
qed

section \<open>Properties\<close>

subsection \<open>The ignore patterns\<close>

text \<open>
  C1. The translation of a pattern escapes a literal dot, maps \<open>*\<close> to \<open>[^/]*\<close> and \<open>?\<close> to
  \<open>[^/]\<close>. The replacement of \<open>**\<close> by \<open>.*\<close> runs before the replacement of \<open>*\<close>, which
  rewrites the star it has just written: \<open>**\<close> becomes \<open>.[^/]*\<close>, one character followed by
  characters other than the separator. So \<open>a/**/b\<close> does not match \<open>a/x/y/b\<close>, and \<open>a**b\<close>
  does not match \<open>ab\<close>.
\<close>

theorem regexPattern_double_star:
  "regexPattern ''a.b'' = [CHR ''a'', CHR 0x5C, CHR ''.'', CHR ''b''] \<and>
   regexPattern ''*'' = ''[^/]*'' \<and>
   regexPattern ''?'' = ''[^/]'' \<and>
   regexPattern ''**'' = ''.[^/]*'' \<and>
   regexPattern (normalizePattern ''a/**/b'') = ''a/.[^/]*/b'' \<and>
   isIgnored ''a/x/y/b'' [''a/**/b''] = Inr False \<and>
   isIgnored ''ab'' [''a**b''] = Inr False"
  by code_simp

text \<open>
  C2. \<open>isIgnored\<close> stops at the first pattern that matches, but a pattern with a character
  that the translation leaves unescaped may be no regular expression at all: \<open>c++\<close> makes
  \<open>new RegExp\<close> throw. With the rule set \<open>c++\<close>, \<open>a\<close> the path \<open>a\<close> is matched by the second
  pattern, and \<open>isIgnored\<close> throws instead of returning true; with the two patterns in the
  other order it returns true.
\<close>

theorem isIgnored_throws_before_match:
  "isIgnored ''a'' [''c++'', ''a''] = Inl SyntaxError \<and>
   isIgnored ''a'' [''a''] = Inr True \<and>
   isIgnored ''a'' [''a'', ''c++''] = Inr True"
  by code_simp


subsection \<open>The scan\<close>

text \<open>
  C4, as stated, fails. In a directory with \<open>a.ts\<close>, whose content cannot be read, and
  \<open>b.txt\<close>, the scan emits the line of \<open>a.ts\<close> and nothing for \<open>b.txt\<close>, which alone in the
  directory is emitted; and where \<open>stat\<close> fails on \<open>b.txt\<close>, the entry \<open>c.txt\<close> after it is
  not emitted either.
\<close>

theorem scanDirectory_error_not_local:
  "scanDirectory unreadable_file_dir [] 0 = ''- '' @ file_glyph @ '' a.ts'' @ newline \<and>
   scanDirectory (Dir (Inr [''b.txt'']) unreadable_file_child) [] 0
     = ''- '' @ file_glyph @ '' b.txt'' @ newline \<and>
   scanDirectory vanished_entry_dir [] 0 = ''- '' @ file_glyph @ '' a.txt'' @ newline"
  by code_simp

text \<open>
  C4, amended. The \<open>catch\<close> is around the whole loop: an error on one entry ends the scan of
  its directory. When the entries before it in sorted order are readable, the scan returns
  their texts and, for a file of a recognized extension whose content cannot be read, the
  line of that file; for an entry on which \<open>stat\<close> fails it returns their texts only. The
  entries after it have no part in the result. The error does not leave the scan of the
  directory: in the directory above, the line of the directory and the text of its scan are
  followed by the texts of the entries after it.
\<close>

theorem scanDirectory_error_truncates:
  assumes "sort files = before @ name # after"
    and "\<forall>b \<in> set before. readable ignorePatterns child b"
  shows "(child name = None \<longrightarrow>
            scanDirectory (Dir (Inr files) child) ignorePatterns level
            = concat (map (entry_block ignorePatterns level child) before)) \<and>
         (child name = Some (File (Inl e)) \<and> isIgnored name ignorePatterns = Inr False \<and>
          extname name \<in> set recognized \<longrightarrow>
            scanDirectory (Dir (Inr files) child) ignorePatterns level
            = concat (map (entry_block ignorePatterns level child) before)
              @ repeat ''  '' level @ ''- '' @ file_glyph @ '' '' @ name @ newline) \<and>
         (sort outer = earlier @ dir # later \<and>
          (\<forall>b \<in> set (earlier @ later). readable ignorePatterns siblings b) \<and>
          siblings dir = Some (Dir (Inr files) child) \<and> isIgnored dir ignorePatterns = Inr False \<longrightarrow>
            scanDirectory (Dir (Inr outer) siblings) ignorePatterns depth
            = concat (map (entry_block ignorePatterns depth siblings) earlier)
              @ repeat ''  '' depth @ ''- '' @ folder_glyph @ '' '' @ dir @ ''/'' @ newline
              @ scanDirectory (Dir (Inr files) child) ignorePatterns (depth + 1)
              @ concat (map (entry_block ignorePatterns depth siblings) later))"
proof (intro conjI impI)
  let ?body = "\<lambda>entry. scan_entry ignorePatterns (repeat ''  '' level) entry
                 (map_option (\<lambda>fullPath. (fullPath, scanDirectory fullPath ignorePatterns (level + 1)))
                    (child entry))"
  let ?block = "entry_block ignorePatterns level child"
  have "\<And>b content. b \<in> set before \<Longrightarrow> ?body b content = Continue (content @ ?block b)"
    using assms(2) by (intro scan_entry_readable) simp
  from scan_loop_readable[of before ?body ?block "name # after" "[]", OF this]
  have pre: "scan_loop ?body (before @ name # after) []
             = scan_loop ?body (name # after) (concat (map ?block before))" by simp
  {
    assume "child name = None"
    then have "\<And>content. ?body name content = Caught content" by (simp add: scan_entry_def)
    with pre show "scanDirectory (Dir (Inr files) child) ignorePatterns level
            = concat (map ?block before)"
      by (simp add: assms(1))
  }
  {
    assume "child name = Some (File (Inl e)) \<and> isIgnored name ignorePatterns = Inr False \<and>
          extname name \<in> set recognized"
    then have "\<And>content. ?body name content
        = Caught (content @ repeat ''  '' level @ ''- '' @ file_glyph @ '' '' @ name @ newline)"
      by (simp add: scan_entry_def isDirectory_def readFile_def Let_def recognized_def)
    with pre show "scanDirectory (Dir (Inr files) child) ignorePatterns level
            = concat (map ?block before)
              @ repeat ''  '' level @ ''- '' @ file_glyph @ '' '' @ name @ newline"
      by (simp add: assms(1))
  }
next
  let ?body = "\<lambda>entry. scan_entry ignorePatterns (repeat ''  '' depth) entry
                 (map_option (\<lambda>fullPath. (fullPath, scanDirectory fullPath ignorePatterns (depth + 1)))
                    (siblings entry))"
  let ?block = "entry_block ignorePatterns depth siblings"
  assume a: "sort outer = earlier @ dir # later \<and>
          (\<forall>b \<in> set (earlier @ later). readable ignorePatterns siblings b) \<and>
          siblings dir = Some (Dir (Inr files) child) \<and> isIgnored dir ignorePatterns = Inr False"
  have r: "\<And>b content. b \<in> set (earlier @ later) \<Longrightarrow> ?body b content = Continue (content @ ?block b)"
    using a by (intro scan_entry_readable) simp
  have d: "\<And>content. ?body dir content
      = Continue (content @ repeat ''  '' depth @ ''- '' @ folder_glyph @ '' '' @ dir @ ''/'' @ newline
                  @ scanDirectory (Dir (Inr files) child) ignorePatterns (depth + 1))"
    using a by (simp add: scan_entry_def isDirectory_def)
  have 1: "scan_loop ?body (earlier @ dir # later) []
           = scan_loop ?body (dir # later) (concat (map ?block earlier))"
    using scan_loop_readable[of earlier ?body ?block "dir # later" "[]"] r by simp
  have 2: "\<And>content. scan_loop ?body (later @ []) content
           = scan_loop ?body [] (content @ concat (map ?block later))"
    using r by (intro scan_loop_readable) simp
  from 1 2 d a
  show "scanDirectory (Dir (Inr outer) siblings) ignorePatterns depth
            = concat (map ?block earlier)
              @ repeat ''  '' depth @ ''- '' @ folder_glyph @ '' '' @ dir @ ''/'' @ newline
              @ scanDirectory (Dir (Inr files) child) ignorePatterns (depth + 1)
              @ concat (map ?block later)"
    by simp
qed

text \<open>
  C4, amended, at a directory in which \<open>b.ts\<close> cannot be read, at the directory above
  it, and at a directory in which \<open>b.txt\<close> has no \<open>stat\<close>.
\<close>

theorem scanDirectory_error_truncates_witness:
  "sort [''c.txt'', ''b.ts'', ''a.txt''] = [''a.txt''] @ ''b.ts'' # [''c.txt''] \<and>
   readable [] broken_read_child ''a.txt'' \<and>
   broken_read_child ''b.ts'' = Some (File (Inl IOError)) \<and>
   isIgnored ''b.ts'' [] = Inr False \<and>
   extname ''b.ts'' \<in> set recognized \<and>
   scanDirectory (Dir (Inr [''c.txt'', ''b.ts'', ''a.txt'']) broken_read_child) [] 1
     = ''  - '' @ file_glyph @ '' a.txt'' @ newline @ ''  - '' @ file_glyph @ '' b.ts'' @ newline \<and>
   sort [''z.txt'', ''sub'', ''a.md''] = [''a.md''] @ ''sub'' # [''z.txt''] \<and>
   readable [] outer_child ''a.md'' \<and> readable [] outer_child ''z.txt'' \<and>
   outer_child ''sub'' = Some (Dir (Inr [''c.txt'', ''b.ts'', ''a.txt'']) broken_read_child) \<and>
   isIgnored ''sub'' [] = Inr False \<and>
   scanDirectory (Dir (Inr [''z.txt'', ''sub'', ''a.md'']) outer_child) [] 0
     = ''- '' @ file_glyph @ '' a.md'' @ newline
       @ ''- '' @ folder_glyph @ '' sub/'' @ newline
       @ ''  - '' @ file_glyph @ '' a.txt'' @ newline @ ''  - '' @ file_glyph @ '' b.ts'' @ newline
       @ ''- '' @ file_glyph @ '' z.txt'' @ newline \<and>
   sort [''c.txt'', ''b.txt'', ''a.txt''] = [''a.txt''] @ ''b.txt'' # [''c.txt''] \<and>
   readable [] vanished_entry_child ''a.txt'' \<and>
   vanished_entry_child ''b.txt'' = None \<and>
   scanDirectory (Dir (Inr [''c.txt'', ''b.txt'', ''a.txt'']) vanished_entry_child) [] 0
     = ''- '' @ file_glyph @ '' a.txt'' @ newline"
proof -
  have s1: "sort [''c.txt'', ''b.ts'', ''a.txt''] = [''a.txt''] @ ''b.ts'' # [''c.txt'']" by simp
  have s2: "sort [''z.txt'', ''sub'', ''a.md''] = [''a.md''] @ ''sub'' # [''z.txt'']" by simp
  have s3: "sort [''c.txt'', ''b.txt'', ''a.txt''] = [''a.txt''] @ ''b.txt'' # [''c.txt'']" by simp
  have q1: "readable [] broken_read_child ''a.txt''" by code_simp
  have q2: "readable [] outer_child ''a.md''" "readable [] outer_child ''z.txt''" by code_simp+
  have q3: "readable [] vanished_entry_child ''a.txt''" by code_simp
  have r1: "\<forall>b \<in> set [''a.txt'']. readable [] broken_read_child b" using q1 by simp
  have r2: "\<forall>b \<in> set ([''a.md''] @ [''z.txt'']). readable [] outer_child b" using q2 by simp
  have r3: "\<forall>b \<in> set [''a.txt'']. readable [] vanished_entry_child b" using q3 by simp
  have h1: "broken_read_child ''b.ts'' = Some (File (Inl IOError))"
    by (simp add: broken_read_child_def)
  have h2: "isIgnored ''b.ts'' [] = Inr False" "isIgnored ''sub'' [] = Inr False" by code_simp+
  have h3: "extname ''b.ts'' \<in> set recognized" by code_simp
  have h4: "outer_child ''sub'' = Some (Dir (Inr [''c.txt'', ''b.ts'', ''a.txt'']) broken_read_child)"
    by (simp add: outer_child_def)
  have h5: "vanished_entry_child ''b.txt'' = None" by (simp add: vanished_entry_child_def)
  have b1: "entry_block [] 1 broken_read_child ''a.txt'' = ''  - '' @ file_glyph @ '' a.txt'' @ newline"
    by code_simp
  have b2: "entry_block [] 0 outer_child ''a.md'' = ''- '' @ file_glyph @ '' a.md'' @ newline"
    "entry_block [] 0 outer_child ''z.txt'' = ''- '' @ file_glyph @ '' z.txt'' @ newline"
    by code_simp+
  have b3: "entry_block [] 0 vanished_entry_child ''a.txt'' = ''- '' @ file_glyph @ '' a.txt'' @ newline"
    by code_simp
  note t = scanDirectory_error_truncates[OF s1 r1, where e = IOError and level = 1
             and outer = "[''z.txt'', ''sub'', ''a.md'']" and earlier = "[''a.md'']"
             and dir = "''sub''" and later = "[''z.txt'']" and siblings = outer_child and depth = 0]
  have rep: "repeat ''  '' 1 = ''  ''" "repeat ''  '' 0 = []" by (simp_all add: repeat_def)
  have one: "(0::nat) + 1 = 1" by simp
  from t h1 h2 h3
  have a0: "scanDirectory (Dir (Inr [''c.txt'', ''b.ts'', ''a.txt'']) broken_read_child) [] 1
     = concat (map (entry_block [] 1 broken_read_child) [''a.txt''])
       @ repeat ''  '' 1 @ ''- '' @ file_glyph @ '' '' @ ''b.ts'' @ newline"
    by blast
  have a: "scanDirectory (Dir (Inr [''c.txt'', ''b.ts'', ''a.txt'']) broken_read_child) [] 1
     = ''  - '' @ file_glyph @ '' a.txt'' @ newline @ ''  - '' @ file_glyph @ '' b.ts'' @ newline"
    unfolding a0 by (simp add: b1[unfolded One_nat_def] rep[unfolded One_nat_def])
  from t s2 r2 h4 h2
  have b0: "scanDirectory (Dir (Inr [''z.txt'', ''sub'', ''a.md'']) outer_child) [] 0
     = concat (map (entry_block [] 0 outer_child) [''a.md''])
              @ repeat ''  '' 0 @ ''- '' @ folder_glyph @ '' '' @ ''sub'' @ ''/'' @ newline
              @ scanDirectory (Dir (Inr [''c.txt'', ''b.ts'', ''a.txt'']) broken_read_child) [] (0 + 1)
              @ concat (map (entry_block [] 0 outer_child) [''z.txt''])"
    by blast
  have b: "scanDirectory (Dir (Inr [''z.txt'', ''sub'', ''a.md'']) outer_child) [] 0
     = ''- '' @ file_glyph @ '' a.md'' @ newline
       @ ''- '' @ folder_glyph @ '' sub/'' @ newline
       @ ''  - '' @ file_glyph @ '' a.txt'' @ newline @ ''  - '' @ file_glyph @ '' b.ts'' @ newline
       @ ''- '' @ file_glyph @ '' z.txt'' @ newline"
    unfolding b0 one a by (simp add: b2 rep[unfolded One_nat_def])
  from scanDirectory_error_truncates[OF s3 r3, where level = 0] h5
  have c0: "scanDirectory (Dir (Inr [''c.txt'', ''b.txt'', ''a.txt'']) vanished_entry_child) [] 0
     = concat (map (entry_block [] 0 vanished_entry_child) [''a.txt''])"
    by blast
  have c: "scanDirectory (Dir (Inr [''c.txt'', ''b.txt'', ''a.txt'']) vanished_entry_child) [] 0
     = ''- '' @ file_glyph @ '' a.txt'' @ newline"
    unfolding c0 by (simp add: b3)
  from s1 s2 s3 q1 q2 q3 h1 h2 h3 h4 h5 a b c show ?thesis by blast
qed

text \<open>
  C5, as stated, fails. With a root whose listing fails and a host in which the writes
  succeed, the run writes the document, with an empty file structure, and reports success.
\<close>

theorem generateStructure_unreadable_root_writes:
  "generateStructure (plain_host unreadable_root) =
     \<lparr>written = Some ([], ''workspace-structure.md'',
          ''# Workspace Structure'' @ newline @ newline
          @ ''Files listed in .gitignore will be excluded.'' @ newline @ newline
          @ ''## Configuration Files'' @ newline @ newline
          @ ''## File Structure'' @ newline @ newline),
      shown = GeneratedSuccessfully\<rparr>"
  by code_simp

text \<open>
  C5, amended. When the listing of the root fails, the scan catches the error and returns
  the empty text; when creating the directory, writing and showing the file succeed, the run
  writes the document, which ends with the heading of the file structure, and shows the
  message of success.
\<close>

theorem generateStructure_unreadable_root:
  assumes "workspaceFolders h = Dir (Inl e) child # others"
    and "mkdir_ok h" and "writeFile_ok h" and "show_ok h"
  shows "shown (generateStructure h) = GeneratedSuccessfully \<and>
         (\<exists>outputDir fileName.
            written (generateStructure h) =
              Some (outputDir, fileName,
                    ''# Workspace Structure'' @ newline @ newline
                    @ ''Files listed in .gitignore will be excluded.'' @ newline @ newline
                    @ projectInfo (JSON_parse h) (Dir (Inl e) child)
                    @ ''## Configuration Files'' @ newline @ newline
                    @ concat (map (configSection (Dir (Inl e) child))
                                  [''requirements.txt'', ''pyproject.toml'', ''package.json''])
                    @ ''## File Structure'' @ newline @ newline))"
  using assms by (simp add: generateStructure_def analyzeWorkspace_def Let_def)

text \<open>C5, amended, at the root whose listing fails.\<close>

theorem generateStructure_unreadable_root_witness:
  "workspaceFolders (plain_host unreadable_root) = Dir (Inl IOError) (\<lambda>name. None) # [] \<and>
   mkdir_ok (plain_host unreadable_root) \<and> writeFile_ok (plain_host unreadable_root) \<and>
   show_ok (plain_host unreadable_root) \<and>
   shown (generateStructure (plain_host unreadable_root)) = GeneratedSuccessfully \<and>
   written (generateStructure (plain_host unreadable_root)) \<noteq> None"
proof -
  have w: "workspaceFolders (plain_host unreadable_root) = Dir (Inl IOError) (\<lambda>name. None) # []"
    and m: "mkdir_ok (plain_host unreadable_root)" and f: "writeFile_ok (plain_host unreadable_root)"
    and s: "show_ok (plain_host unreadable_root)"
    by (simp_all add: plain_host_def unreadable_root_def)
  from generateStructure_unreadable_root[OF w m f s] w m f s show ?thesis by auto
qed

text \<open>
  C8. The run is a function of the snapshot, and of the order of enumeration it depends not
  at all: two snapshots of the same tree give the same file and the same message. The text
  of the scan of a directory is the concatenation of the texts of its entries, taken in
  sorted order of their names, up to the entry at which the scan ends.
\<close>

theorem generateStructure_enumeration_order:
  assumes "same_tree root root'"
  shows "generateStructure (h\<lparr>workspaceFolders := root # others\<rparr>)
           = generateStructure (h\<lparr>workspaceFolders := root' # others\<rparr>) \<and>
         (\<exists>k. sorted (take k (sort files)) \<and>
              scanDirectory (Dir (Inr files) child) ignorePatterns level =
                concat (map (\<lambda>name. entry_text ignorePatterns (repeat ''  '' level) name
                               (map_option (\<lambda>fullPath. (fullPath,
                                    scanDirectory fullPath ignorePatterns (level + 1)))
                                  (child name)))
                            (take k (sort files))))"
proof
  show "generateStructure (h\<lparr>workspaceFolders := root # others\<rparr>)
           = generateStructure (h\<lparr>workspaceFolders := root' # others\<rparr>)"
    by (simp add: generateStructure_def Let_def same_tree_analyzeWorkspace[OF assms])
next
  from scanDirectory_sorted_prefix[of files child ignorePatterns level]
  obtain k where "scanDirectory (Dir (Inr files) child) ignorePatterns level =
                concat (map (\<lambda>name. entry_text ignorePatterns (repeat ''  '' level) name
                               (map_option (\<lambda>fullPath. (fullPath,
                                    scanDirectory fullPath ignorePatterns (level + 1)))
                                  (child name)))
                            (take k (sort files)))" by blast
  moreover have "sorted (take k (sort files))" by (simp add: sorted_wrt_take)
  ultimately show "\<exists>k. sorted (take k (sort files)) \<and>
              scanDirectory (Dir (Inr files) child) ignorePatterns level =
                concat (map (\<lambda>name. entry_text ignorePatterns (repeat ''  '' level) name
                               (map_option (\<lambda>fullPath. (fullPath,
                                    scanDirectory fullPath ignorePatterns (level + 1)))
                                  (child name)))
                            (take k (sort files)))" by blast
qed

text \<open>C8 at one tree, enumerated as \<open>b.txt\<close>, \<open>a\<close> and as \<open>a\<close>, \<open>b.txt\<close>.\<close>

theorem generateStructure_enumeration_order_witness:
  "same_tree (reordered_dir [''b.txt'', ''a'']) (reordered_dir [''a'', ''b.txt'']) \<and>
   generateStructure (plain_host (reordered_dir [''b.txt'', ''a'']))
     = generateStructure (plain_host (reordered_dir [''a'', ''b.txt'']))"
proof -
  have p: "\<And>r r'. (plain_host r)\<lparr>workspaceFolders := r' # []\<rparr> = plain_host r'"
    by (simp add: plain_host_def)
  from generateStructure_enumeration_order[OF reordered_same,
         where h = "plain_host (reordered_dir [''b.txt'', ''a''])" and others = "[]"]
  have "generateStructure ((plain_host (reordered_dir [''b.txt'', ''a'']))
            \<lparr>workspaceFolders := reordered_dir [''b.txt'', ''a''] # []\<rparr>)
        = generateStructure ((plain_host (reordered_dir [''b.txt'', ''a'']))
            \<lparr>workspaceFolders := reordered_dir [''a'', ''b.txt''] # []\<rparr>)" by blast
  then show ?thesis using reordered_same by (simp add: p)
qed

subsection \<open>The extraction\<close>

text \<open>
  C6, as stated, fails: the import loop of the indentation-scripting profile pushes every
  entry, and a line that occurs twice gives two equal entries.
\<close>

theorem py_imports_not_deduplicated:
  "analyzeFileContent (''import os'' @ newline @ ''import os'') ''.py''
     = Inr (no_analysis\<lparr>imports := [''import os'', ''import os'']\<rparr>)"
  by code_simp

text \<open>
  C6, amended. For every content the indentation-scripting profile returns \<open>functions\<close> and
  \<open>methods\<close> without duplicates: each is the list of the names matched, reduced to the first
  occurrence of every name, in the order of these first occurrences. Its \<open>imports\<close> and
  \<open>classes\<close> are not de-duplicated, and no field of the C-family profile is.
\<close>

theorem py_functions_methods_deduplicated:
  "(analyzeFileContent content ''.py'' = Inr analysis \<longrightarrow>
      distinct (functions analysis) \<and> distinct (methods analysis) \<and>
      functions analysis =
        rev (remdups (rev (map (\<lambda>m. to_string (group content m 1))
                               (matchAll True py_functionRegex content)))) \<and>
      methods analysis =
        rev (remdups (rev (map (\<lambda>m. to_string (group content m 1))
                               (matchAll True py_methodRegex content))))) \<and>
   analyzeFileContent py_twice ''.py'' =
     Inr \<lparr>imports = [''import os'', ''import sys'', ''import os''], functions = [''f'', ''g''],
          classes = [''A'', ''A''], exports = [], methods = [''m''], components = []\<rparr> \<and>
   analyzeFileContent ts_twice ''.ts'' =
     Inr \<lparr>imports = [''import x from '' @ [CHR 0x22] @ ''y'' @ [CHR 0x22],
                     ''import x from '' @ [CHR 0x22] @ ''y'' @ [CHR 0x22]],
          functions = [''App'', ''App''], classes = [''A'', ''A''], exports = [''App'', ''App''],
          methods = [''run'', ''run''], components = [''App'', ''App'']\<rparr>"
proof (intro conjI impI)
  assume a: "analyzeFileContent content ''.py'' = Inr analysis"
  then have f: "functions analysis = new_Set (map (\<lambda>m. to_string (group content m 1))
                               (matchAll True py_functionRegex content))"
    and m: "methods analysis = new_Set (map (\<lambda>m. to_string (group content m 1))
                               (matchAll True py_methodRegex content))"
    by (auto simp: analyzeFileContent_def split: sum.splits)
  show "distinct (functions analysis)" by (simp add: f distinct_new_Set)
  show "distinct (methods analysis)" by (simp add: m distinct_new_Set)
  show "functions analysis =
        rev (remdups (rev (map (\<lambda>m. to_string (group content m 1))
                               (matchAll True py_functionRegex content))))"
    by (simp add: f new_Set_first_seen)
  show "methods analysis =
        rev (remdups (rev (map (\<lambda>m. to_string (group content m 1))
                               (matchAll True py_methodRegex content))))"
    by (simp add: m new_Set_first_seen)
next
  show "analyzeFileContent py_twice ''.py'' =
     Inr \<lparr>imports = [''import os'', ''import sys'', ''import os''], functions = [''f'', ''g''],
          classes = [''A'', ''A''], exports = [], methods = [''m''], components = []\<rparr>"
    by code_simp
next
  show "analyzeFileContent ts_twice ''.ts'' =
     Inr \<lparr>imports = [''import x from '' @ [CHR 0x22] @ ''y'' @ [CHR 0x22],
                     ''import x from '' @ [CHR 0x22] @ ''y'' @ [CHR 0x22]],
          functions = [''App'', ''App''], classes = [''A'', ''A''], exports = [''App'', ''App''],
          methods = [''run'', ''run''], components = [''App'', ''App'']\<rparr>"
    by code_simp
qed

text \<open>C6, amended, at a source that defines \<open>f\<close> twice and \<open>m\<close> twice.\<close>

theorem py_functions_methods_deduplicated_witness:
  "analyzeFileContent py_twice ''.py'' =
     Inr \<lparr>imports = [''import os'', ''import sys'', ''import os''], functions = [''f'', ''g''],
          classes = [''A'', ''A''], exports = [], methods = [''m''], components = []\<rparr> \<and>
   distinct [''f'', ''g''] \<and> distinct [''m'']"
  using py_functions_methods_deduplicated[of py_twice
          "\<lparr>imports = [''import os'', ''import sys'', ''import os''], functions = [''f'', ''g''],
            classes = [''A'', ''A''], exports = [], methods = [''m''], components = []\<rparr>"]
  by simp

text \<open>
  C7. The method loop drops a name on which \<open>/[A-Z][a-zA-Z0-9]*/\<close> tests true, and the test
  is not anchored: it is true of every name with an upper-case letter anywhere. So \<open>fooBar\<close>
  in method position is not recorded, while \<open>foo\<close> is.
\<close>

theorem js_methods_drops_inner_capital:
  "js_methods ''fooBar() {'' = [] \<and>
   js_methods ''foo() {'' = [''foo''] \<and>
   test False capitalRegex ''fooBar'' \<and>
   analyzeFileContent ''fooBar() {'' ''.ts'' = Inr no_analysis \<and>
   analyzeFileContent ''foo() {'' ''.ts'' = Inr (no_analysis\<lparr>methods := [''foo'']\<rparr>)"
  by code_simp

text \<open>
  C9, as stated, fails: a source with an unbalanced parenthesis is analysed like any other,
  and its record is not empty when it declares something.
\<close>

theorem analyzeFileContent_unbalanced_not_empty:
  "analyzeFileContent ''function foo('' ''.js'' = Inr (no_analysis\<lparr>functions := [''foo'']\<rparr>)"
  by code_simp

text \<open>
  C9, amended. For every content and every extension \<open>analyzeFileContent\<close> returns a record
  and does not throw; on the empty content and on a content of white space only, all six
  fields of the record are empty.
\<close>

theorem analyzeFileContent_returns:
  "(\<exists>analysis. analyzeFileContent content ext = Inr analysis) \<and>
   (list_all isWhiteSpace content \<longrightarrow> analyzeFileContent content ext = Inr no_analysis)"
  using analyzeFileContent_total[of content ext] analyzeFileContent_blank[of content ext]
  by (simp add: blank_def)

text \<open>C9, amended, at a content of blanks and a line break, and at the empty content.\<close>

theorem analyzeFileContent_returns_witness:
  "list_all isWhiteSpace ('' '' @ newline @ ''  '') \<and>
   analyzeFileContent ('' '' @ newline @ ''  '') ''.ts'' = Inr no_analysis \<and>
   analyzeFileContent [] ''.py'' = Inr no_analysis"
proof -
  have "list_all isWhiteSpace ('' '' @ newline @ ''  '')" by code_simp
  with analyzeFileContent_returns[of "'' '' @ newline @ ''  ''" "''.ts''"]
       analyzeFileContent_returns[of "[]" "''.py''"]
  show ?thesis by simp
qed

text \<open>
  C10. In the indentation-scripting profile the alias after \<open>as\<close> is appended to every entry
  of a comma-separated import: \<open>import a, b as c\<close> gives \<open>import a as c\<close> and
  \<open>import b as c\<close>. In general, a match with the names \<open>names\<close> and the alias \<open>alias\<close> gives one
  entry for every name, each ending with the alias.
\<close>

theorem py_import_alias_on_every_entry:
  "analyzeFileContent ''import a, b as c'' ''.py''
     = Inr (no_analysis\<lparr>imports := [''import a as c'', ''import b as c'']\<rparr>) \<and>
   (group content importMatches 2 = Some names \<and> group content importMatches 3 = Some alias \<and>
    alias \<noteq> [] \<longrightarrow>
      (\<exists>fromModule.
         py_import_entries content importMatches =
           Inr (map (\<lambda>name. ''import '' @ fromModule @ name @ '' as '' @ trim alias)
                    (map trim (split CHR '','' names)))))"
proof (intro conjI impI)
  show "analyzeFileContent ''import a, b as c'' ''.py''
     = Inr (no_analysis\<lparr>imports := [''import a as c'', ''import b as c'']\<rparr>)"
    by code_simp
next
  assume "group content importMatches 2 = Some names \<and> group content importMatches 3 = Some alias \<and>
    alias \<noteq> []"
  then show "\<exists>fromModule.
         py_import_entries content importMatches =
           Inr (map (\<lambda>name. ''import '' @ fromModule @ name @ '' as '' @ trim alias)
                    (map trim (split CHR '','' names)))"
    by (simp add: py_import_entries_def Let_def truthy_def)
qed

text \<open>C10 at the match of \<open>import a, b as c\<close>.\<close>

theorem py_import_alias_on_every_entry_witness:
  "group ''import a, b as c'' (0, 16, [2 \<mapsto> (7, 11), 3 \<mapsto> (15, 16)]) 2 = Some ''a, b'' \<and>
   group ''import a, b as c'' (0, 16, [2 \<mapsto> (7, 11), 3 \<mapsto> (15, 16)]) 3 = Some ''c'' \<and>
   ''c'' \<noteq> [] \<and>
   (\<exists>fromModule. py_import_entries ''import a, b as c'' (0, 16, [2 \<mapsto> (7, 11), 3 \<mapsto> (15, 16)]) =
      Inr (map (\<lambda>name. ''import '' @ fromModule @ name @ '' as '' @ trim ''c'')
               (map trim (split CHR '','' ''a, b''))))"
proof -
  have g: "group ''import a, b as c'' (0, 16, [2 \<mapsto> (7, 11), 3 \<mapsto> (15, 16)]) 2 = Some ''a, b''"
    "group ''import a, b as c'' (0, 16, [2 \<mapsto> (7, 11), 3 \<mapsto> (15, 16)]) 3 = Some ''c''"
    by (simp_all add: group_def)
  with py_import_alias_on_every_entry[of "''import a, b as c''"
         "(0, 16, [2 \<mapsto> (7, 11), 3 \<mapsto> (15, 16)])" "''a, b''" "''c''"]
  show ?thesis by simp
qed

end
